theory Spec2Isabelle
  imports Complex_Main
begin

section \<open>The Tetromino distractor of cogandmem (tetromino.py)\<close>

text \<open>
  A shallow embedding of the game engine of \<^verbatim>\<open>cogandmem/tetromino.py\<close>: the shape
  catalogue, the class \<^verbatim>\<open>GameBoard\<close>, the class \<^verbatim>\<open>Piece\<close> and the loop of
  \<^verbatim>\<open>distractor\<close>. Python integers are \<open>int\<close>, Python lists are HOL lists read and
  written through \<open>getitem\<close> and \<open>setitem\<close>, which wrap a negative index and raise
  \<^verbatim>\<open>IndexError\<close> as Python does. A raised exception is the left injection of a sum.
  Rendering (\<^verbatim>\<open>draw\<close>, \<^verbatim>\<open>draw_box\<close>, \<^verbatim>\<open>draw_as_next_piece\<close>) and sound change no
  game state and are left out.
\<close>

subsection \<open>Exceptions and Python list indexing\<close>

datatype error = IndexError | AttributeError | AssertionError | SystemExit

definition index_ok :: "'a list \<Rightarrow> int \<Rightarrow> bool" where
  "index_ok xs i \<longleftrightarrow> - int (length xs) \<le> i \<and> i < int (length xs)"

definition norm_index :: "'a list \<Rightarrow> int \<Rightarrow> nat" where
  "norm_index xs i = (if i < 0 then nat (i + int (length xs)) else nat i)"

definition getitem :: "'a list \<Rightarrow> int \<Rightarrow> error + 'a" where
  "getitem xs i = (if index_ok xs i then Inr (xs ! norm_index xs i) else Inl IndexError)"

definition setitem :: "'a list \<Rightarrow> int \<Rightarrow> 'a \<Rightarrow> error + 'a list" where
  "setitem xs i v = (if index_ok xs i then Inr (xs[norm_index xs i := v]) else Inl IndexError)"

text \<open>\<^verbatim>\<open>xrange(n)\<close>, \<^verbatim>\<open>xrange(a, n)\<close> and \<^verbatim>\<open>xrange(y, 0, -1)\<close>.\<close>

definition xrange :: "int \<Rightarrow> int list" where
  "xrange n = map int [0..<nat n]"

definition xrange_from :: "int \<Rightarrow> int \<Rightarrow> int list" where
  "xrange_from a n = map (\<lambda>k. a + int k) [0..<nat (n - a)]"

definition xrange_down :: "int \<Rightarrow> int list" where
  "xrange_down y = rev (xrange_from 1 (y + 1))"

text \<open>A \<^verbatim>\<open>for\<close> loop without \<^verbatim>\<open>break\<close> whose body may raise.\<close>

fun for_each :: "'a list \<Rightarrow> ('a \<Rightarrow> 's \<Rightarrow> error + 's) \<Rightarrow> 's \<Rightarrow> error + 's" where
  "for_each [] body s = Inr s"
| "for_each (i # rest) body s =
     (case body i s of Inl e \<Rightarrow> Inl e | Inr s' \<Rightarrow> for_each rest body s')"

subsection \<open>Game constants and the shape catalogue\<close>

definition LINES_PER_LEVEL :: int where "LINES_PER_LEVEL = 10"
definition NEW_PIECES_START_Y :: int where "NEW_PIECES_START_Y = - 2"
definition MOVE_SIDEWAYS_FREQUENCY :: real where "MOVE_SIDEWAYS_FREQUENCY = 15 / 100"
definition MOVE_DOWN_FREQUENCY :: real where "MOVE_DOWN_FREQUENCY = 1 / 10"
definition NUM_COLOURS :: int where "NUM_COLOURS = 4"

text \<open>
  \<^verbatim>\<open>BLANK = "."\<close> marks both an empty template position (a character of a template
  string) and an empty board cell; a filled board cell holds an index into
  \<^verbatim>\<open>COLOURS\<close>.
\<close>

definition BLANK_char :: char where "BLANK_char = CHR ''.''"

datatype cell = BLANK | Colour int

definition TEMPLATE_WIDTH :: int where "TEMPLATE_WIDTH = 5"
definition TEMPLATE_HEIGHT :: int where "TEMPLATE_HEIGHT = 5"

type_synonym template = "string list"

definition S_SHAPE_TEMPLATE :: "template list" where
  "S_SHAPE_TEMPLATE =
    [[''.....'', ''.....'', ''..OO.'', ''.OO..'', ''.....''],
     [''.....'', ''..O..'', ''..OO.'', ''...O.'', ''.....'']]"

definition Z_SHAPE_TEMPLATE :: "template list" where
  "Z_SHAPE_TEMPLATE =
    [[''.....'', ''.....'', ''.OO..'', ''..OO.'', ''.....''],
     [''.....'', ''..O..'', ''.OO..'', ''.O...'', ''.....'']]"

definition I_SHAPE_TEMPLATE :: "template list" where
  "I_SHAPE_TEMPLATE =
    [[''..O..'', ''..O..'', ''..O..'', ''..O..'', ''.....''],
     [''.....'', ''.....'', ''OOOO.'', ''.....'', ''.....'']]"

definition O_SHAPE_TEMPLATE :: "template list" where
  "O_SHAPE_TEMPLATE =
    [[''.....'', ''.....'', ''.OO..'', ''.OO..'', ''.....'']]"

definition J_SHAPE_TEMPLATE :: "template list" where
  "J_SHAPE_TEMPLATE =
    [[''.....'', ''.O...'', ''.OOO.'', ''.....'', ''.....''],
     [''.....'', ''..OO.'', ''..O..'', ''..O..'', ''.....''],
     [''.....'', ''.....'', ''.OOO.'', ''...O.'', ''.....''],
     [''.....'', ''..O..'', ''..O..'', ''.OO..'', ''.....'']]"

definition L_SHAPE_TEMPLATE :: "template list" where
  "L_SHAPE_TEMPLATE =
    [[''.....'', ''...O.'', ''.OOO.'', ''.....'', ''.....''],
     [''.....'', ''..O..'', ''..O..'', ''..OO.'', ''.....''],
     [''.....'', ''.....'', ''.OOO.'', ''.O...'', ''.....''],
     [''.....'', ''.OO..'', ''..O..'', ''..O..'', ''.....'']]"

definition T_SHAPE_TEMPLATE :: "template list" where
  "T_SHAPE_TEMPLATE =
    [[''.....'', ''..O..'', ''.OOO.'', ''.....'', ''.....''],
     [''.....'', ''..O..'', ''..OO.'', ''..O..'', ''.....''],
     [''.....'', ''.....'', ''.OOO.'', ''..O..'', ''.....''],
     [''.....'', ''..O..'', ''.OO..'', ''..O..'', ''.....'']]"

text \<open>The keys of the dictionary \<^verbatim>\<open>PIECES\<close>, in the order the source lists them.\<close>

datatype shape = S_SHAPE | Z_SHAPE | J_SHAPE | L_SHAPE | I_SHAPE | O_SHAPE | T_SHAPE

fun PIECES :: "shape \<Rightarrow> template list" where
  "PIECES S_SHAPE = S_SHAPE_TEMPLATE"
| "PIECES Z_SHAPE = Z_SHAPE_TEMPLATE"
| "PIECES J_SHAPE = J_SHAPE_TEMPLATE"
| "PIECES L_SHAPE = L_SHAPE_TEMPLATE"
| "PIECES I_SHAPE = I_SHAPE_TEMPLATE"
| "PIECES O_SHAPE = O_SHAPE_TEMPLATE"
| "PIECES T_SHAPE = T_SHAPE_TEMPLATE"

subsection \<open>The class GameBoard\<close>

text \<open>
  \<^verbatim>\<open>state\<close> is a list of columns, each a list of cells indexed by row:
  \<^verbatim>\<open>state[x][y]\<close>. The constructor builds every column afresh, so no two columns
  are the same list object and a write to one column changes no other.
\<close>

record GameBoard =
  columns :: int
  rows :: int
  state :: "cell list list"
  left_px :: int
  top_px :: int
  cell_size :: int

text \<open>
  \<^verbatim>\<open>GameBoard.__init__(self, left, top, cell_size, columns = 10, rows = 20)\<close>. The
  attributes \<^verbatim>\<open>columns\<close> and \<^verbatim>\<open>rows\<close> are assigned the literals 10 and 20; the
  arguments only size \<^verbatim>\<open>state\<close>.
\<close>

definition GameBoard_init :: "int \<Rightarrow> int \<Rightarrow> int \<Rightarrow> int \<Rightarrow> int \<Rightarrow> GameBoard" where
  "GameBoard_init left_arg top_arg csize columns_arg rows_arg =
     \<lparr>columns = 10, rows = 20,
      state = replicate (nat columns_arg) (replicate (nat rows_arg) BLANK),
      left_px = left_arg, top_px = top_arg, cell_size = csize\<rparr>"

definition reset :: "GameBoard \<Rightarrow> GameBoard" where
  "reset b = b\<lparr>state := replicate (nat (columns b)) (replicate (nat (rows b)) BLANK)\<rparr>"

definition is_on_board :: "GameBoard \<Rightarrow> int \<Rightarrow> int \<Rightarrow> bool" where
  "is_on_board b x y = (if 0 \<le> x \<and> x < columns b \<and> 0 \<le> y \<and> y < rows b then True else False)"

text \<open>\<^verbatim>\<open>state[x][y]\<close> as an expression and as an assignment target.\<close>

definition get_cell :: "cell list list \<Rightarrow> int \<Rightarrow> int \<Rightarrow> error + cell" where
  "get_cell st x y = (case getitem st x of Inl e \<Rightarrow> Inl e | Inr col \<Rightarrow> getitem col y)"

definition set_cell :: "cell list list \<Rightarrow> int \<Rightarrow> int \<Rightarrow> cell \<Rightarrow> error + cell list list" where
  "set_cell st x y v =
     (case getitem st x of Inl e \<Rightarrow> Inl e
      | Inr col \<Rightarrow> (case setitem col y v of Inl e \<Rightarrow> Inl e
                    | Inr col' \<Rightarrow> setitem st x col'))"

text \<open>
  \<^verbatim>\<open>is_complete_line\<close>: the \<^verbatim>\<open>for\<close> loop over the columns with its \<^verbatim>\<open>break\<close> and
  \<^verbatim>\<open>else\<close> clause.
\<close>

fun is_complete_line_loop :: "cell list list \<Rightarrow> int \<Rightarrow> int list \<Rightarrow> error + bool" where
  "is_complete_line_loop st y [] = Inr True"
| "is_complete_line_loop st y (x # rest) =
     (case get_cell st x y of
        Inl e \<Rightarrow> Inl e
      | Inr current_cell \<Rightarrow>
          if current_cell = BLANK then Inr False else is_complete_line_loop st y rest)"

definition is_complete_line :: "GameBoard \<Rightarrow> int \<Rightarrow> error + bool" where
  "is_complete_line b y = is_complete_line_loop (state b) y (xrange (columns b))"

text \<open>
  The body of the \<^verbatim>\<open>if\<close> branch of \<^verbatim>\<open>remove_complete_lines\<close>: pull every row above
  \<open>y\<close> down by one, row by row from \<open>y\<close> up to 1, then blank row 0.
\<close>

definition copy_cell_down :: "int \<Rightarrow> int \<Rightarrow> cell list list \<Rightarrow> error + cell list list" where
  "copy_cell_down pull_down_y x st =
     (case get_cell st x (pull_down_y - 1) of
        Inl e \<Rightarrow> Inl e
      | Inr v \<Rightarrow> set_cell st x pull_down_y v)"

definition remove_line :: "GameBoard \<Rightarrow> int \<Rightarrow> error + GameBoard" where
  "remove_line b y =
     (case for_each (xrange_down y)
             (\<lambda>pull_down_y. for_each (xrange (columns b)) (copy_cell_down pull_down_y))
             (state b) of
        Inl e \<Rightarrow> Inl e
      | Inr st \<Rightarrow>
         (case for_each (xrange (columns b)) (\<lambda>x st'. set_cell st' x 0 BLANK) st of
            Inl e \<Rightarrow> Inl e
          | Inr st' \<Rightarrow> Inr (b\<lparr>state := st'\<rparr>)))"

text \<open>
  The \<^verbatim>\<open>while y >= 0\<close> loop of \<^verbatim>\<open>remove_complete_lines\<close>. After a removal \<open>y\<close> is
  not decremented, so the loop is not structurally recursive; \<open>None\<close> stands for a
  run that never leaves the loop.
\<close>

partial_function (option) remove_complete_lines_loop ::
  "GameBoard \<Rightarrow> int \<Rightarrow> int \<Rightarrow> (error + int \<times> GameBoard) option" where
  "remove_complete_lines_loop b y lines =
     (if y \<ge> 0 then
        (case is_complete_line b y of
           Inl e \<Rightarrow> Some (Inl e)
         | Inr is_complete \<Rightarrow>
             if is_complete then
               (case remove_line b y of
                  Inl e \<Rightarrow> Some (Inl e)
                | Inr b' \<Rightarrow> remove_complete_lines_loop b' y (lines + 1))
             else remove_complete_lines_loop b (y - 1) lines)
      else Some (Inr (lines, b)))"

declare remove_complete_lines_loop.simps [code]

definition remove_complete_lines :: "GameBoard \<Rightarrow> (error + int \<times> GameBoard) option" where
  "remove_complete_lines b = remove_complete_lines_loop b (rows b - 1) 0"

text \<open>
  The class invariant the docstring states: \<^verbatim>\<open>state\<close> is a \<^verbatim>\<open>columns\<close> by \<^verbatim>\<open>rows\<close>
  list of lists.
\<close>

definition wf_board :: "GameBoard \<Rightarrow> bool" where
  "wf_board b \<longleftrightarrow>
     0 \<le> columns b \<and> 0 \<le> rows b \<and> length (state b) = nat (columns b) \<and>
     list_all (\<lambda>col. length col = nat (rows b)) (state b)"

subsection \<open>The class Piece\<close>

record Piece =
  shape :: shape
  orientation :: int
  piece_x :: int
  piece_y :: int
  colour :: int

text \<open>
  \<^verbatim>\<open>Piece.__init__(self, b, shape, orientation, colour)\<close> with the three keyword
  arguments given. The fields \<open>piece_x\<close> and \<open>piece_y\<close> are the attributes \<^verbatim>\<open>x\<close>
  and \<^verbatim>\<open>y\<close>.
\<close>

definition Piece_init :: "GameBoard \<Rightarrow> shape \<Rightarrow> int \<Rightarrow> int \<Rightarrow> Piece" where
  "Piece_init b shape_arg orientation_arg colour_arg =
     \<lparr>shape = shape_arg, orientation = orientation_arg,
      piece_x = columns b div 2 - TEMPLATE_WIDTH div 2,
      piece_y = NEW_PIECES_START_Y, colour = colour_arg\<rparr>"

text \<open>
  \<^verbatim>\<open>Piece(b)\<close>: shape, orientation and colour are drawn at random. A draw is the
  shape \<^verbatim>\<open>np.random.choice\<close> returns and two naturals that stand for the two
  \<^verbatim>\<open>np.random.randint(0, n)\<close> results, reduced into \<open>[0, n)\<close>.
\<close>

type_synonym draw = "shape \<times> nat \<times> nat"

definition random_Piece :: "GameBoard \<Rightarrow> draw \<Rightarrow> Piece" where
  "random_Piece b d =
     (case d of (sh, r1, r2) \<Rightarrow>
        Piece_init b sh (int (r1 mod length (PIECES sh))) (int (r2 mod nat NUM_COLOURS)))"

text \<open>\<^verbatim>\<open>PIECES[self.shape][self.orientation][y][x]\<close>.\<close>

definition template_cell :: "Piece \<Rightarrow> int \<Rightarrow> int \<Rightarrow> error + char" where
  "template_cell p y x =
     (case getitem (PIECES (shape p)) (orientation p) of
        Inl e \<Rightarrow> Inl e
      | Inr t \<Rightarrow> (case getitem t y of Inl e \<Rightarrow> Inl e | Inr line \<Rightarrow> getitem line x))"

definition add_to_board_cell :: "Piece \<Rightarrow> int \<Rightarrow> int \<Rightarrow> cell list list \<Rightarrow> error + cell list list" where
  "add_to_board_cell p x y st =
     (case template_cell p y x of
        Inl e \<Rightarrow> Inl e
      | Inr ch \<Rightarrow>
          if ch \<noteq> BLANK_char
          then set_cell st (x + piece_x p) (y + piece_y p) (Colour (colour p))
          else Inr st)"

definition add_to_board :: "Piece \<Rightarrow> GameBoard \<Rightarrow> error + GameBoard" where
  "add_to_board p b =
     (case for_each (xrange TEMPLATE_WIDTH)
             (\<lambda>x. for_each (xrange TEMPLATE_HEIGHT) (add_to_board_cell p x)) (state b) of
        Inl e \<Rightarrow> Inl e
      | Inr st \<Rightarrow> Inr (b\<lparr>state := st\<rparr>))"

text \<open>
  \<^verbatim>\<open>is_valid_position\<close>. The \<^verbatim>\<open>break\<close> leaves the inner loop over \<open>y\<close> only; the
  outer loop over \<open>x\<close> goes on with \<^verbatim>\<open>valid\<close> already false, and nothing sets it
  back to true. The test \<^verbatim>\<open>is_above_board or ... == BLANK\<close> short-circuits: the
  template is not read for a position above the board.
\<close>

fun is_valid_position_column ::
  "Piece \<Rightarrow> GameBoard \<Rightarrow> int \<Rightarrow> int \<Rightarrow> int \<Rightarrow> int list \<Rightarrow> bool \<Rightarrow> error + bool" where
  "is_valid_position_column p b x_adjustment y_adjustment x [] valid = Inr valid"
| "is_valid_position_column p b x_adjustment y_adjustment x (y # rest) valid =
     (let is_above_board = y + piece_y p + y_adjustment < 0 in
      if is_above_board
      then is_valid_position_column p b x_adjustment y_adjustment x rest valid
      else
        (case template_cell p y x of
           Inl e \<Rightarrow> Inl e
         | Inr ch \<Rightarrow>
             if ch = BLANK_char
             then is_valid_position_column p b x_adjustment y_adjustment x rest valid
             else if \<not> is_on_board b (x + piece_x p + x_adjustment) (y + piece_y p + y_adjustment)
             then Inr False
             else
               (case get_cell (state b) (x + piece_x p + x_adjustment)
                       (y + piece_y p + y_adjustment) of
                  Inl e \<Rightarrow> Inl e
                | Inr c \<Rightarrow>
                    if c \<noteq> BLANK then Inr False
                    else is_valid_position_column p b x_adjustment y_adjustment x rest valid)))"

definition is_valid_position :: "Piece \<Rightarrow> GameBoard \<Rightarrow> int \<Rightarrow> int \<Rightarrow> error + bool" where
  "is_valid_position p b x_adjustment y_adjustment =
     for_each (xrange TEMPLATE_WIDTH)
       (\<lambda>x valid. is_valid_position_column p b x_adjustment y_adjustment x
                     (xrange TEMPLATE_HEIGHT) valid)
       True"

definition legal_left :: "Piece \<Rightarrow> GameBoard \<Rightarrow> error + bool" where
  "legal_left p b = is_valid_position p b (- 1) 0"

definition legal_right :: "Piece \<Rightarrow> GameBoard \<Rightarrow> error + bool" where
  "legal_right p b = is_valid_position p b 1 0"

definition legal_down :: "Piece \<Rightarrow> GameBoard \<Rightarrow> error + bool" where
  "legal_down p b = is_valid_position p b 0 1"

definition move_left :: "Piece \<Rightarrow> Piece" where
  "move_left p = p\<lparr>piece_x := piece_x p - 1\<rparr>"

definition move_right :: "Piece \<Rightarrow> Piece" where
  "move_right p = p\<lparr>piece_x := piece_x p + 1\<rparr>"

definition move_down :: "Piece \<Rightarrow> Piece" where
  "move_down p = p\<lparr>piece_y := piece_y p + 1\<rparr>"

text \<open>\<^verbatim>\<open>move_to_bottom\<close>: at most \<^verbatim>\<open>b.rows - 1\<close> rounds, left at the first illegal one.\<close>

fun move_to_bottom_loop :: "GameBoard \<Rightarrow> int list \<Rightarrow> Piece \<Rightarrow> error + Piece" where
  "move_to_bottom_loop b [] p = Inr p"
| "move_to_bottom_loop b (i # rest) p =
     (case legal_down p b of
        Inl e \<Rightarrow> Inl e
      | Inr legal \<Rightarrow>
          if \<not> legal then Inr p
          else move_to_bottom_loop b rest (p\<lparr>piece_y := piece_y p + 1\<rparr>))"

definition move_to_bottom :: "Piece \<Rightarrow> GameBoard \<Rightarrow> error + Piece" where
  "move_to_bottom p b = move_to_bottom_loop b (xrange_from 1 (rows b)) p"

definition rotate_clockwise :: "Piece \<Rightarrow> GameBoard \<Rightarrow> error + Piece" where
  "rotate_clockwise p b =
     (let p1 = p\<lparr>orientation := (orientation p + 1) mod int (length (PIECES (shape p)))\<rparr> in
      case is_valid_position p1 b 0 0 of
        Inl e \<Rightarrow> Inl e
      | Inr valid \<Rightarrow>
          if \<not> valid
          then Inr (p1\<lparr>orientation := (orientation p1 - 1) mod int (length (PIECES (shape p1)))\<rparr>)
          else Inr p1)"

definition rotate_counterclockwise :: "Piece \<Rightarrow> GameBoard \<Rightarrow> error + Piece" where
  "rotate_counterclockwise p b =
     (let p1 = p\<lparr>orientation := (orientation p - 1) mod int (length (PIECES (shape p)))\<rparr> in
      case is_valid_position p1 b 0 0 of
        Inl e \<Rightarrow> Inl e
      | Inr valid \<Rightarrow>
          if \<not> valid
          then Inr (p1\<lparr>orientation := (orientation p1 + 1) mod int (length (PIECES (shape p1)))\<rparr>)
          else Inr p1)"

subsection \<open>Notions used in the statements, and example boards\<close>

text \<open>
  What the claims call an occupied cell of the piece: the template position holds a
  character other than \<^verbatim>\<open>BLANK\<close>.
\<close>

definition occupied :: "Piece \<Rightarrow> int \<Rightarrow> int \<Rightarrow> bool" where
  "occupied p x y = (case template_cell p y x of Inl e \<Rightarrow> False | Inr ch \<Rightarrow> ch \<noteq> BLANK_char)"

text \<open>The template positions the two loops visit.\<close>

definition template_positions :: "(int \<times> int) list" where
  "template_positions = List.product (xrange TEMPLATE_WIDTH) (xrange TEMPLATE_HEIGHT)"

text \<open>
  What \<^verbatim>\<open>is_valid_position\<close> asks of one template position: it is above the board
  at the candidate offset, or blank in the template, or it lands on a blank cell of
  the board.
\<close>

definition cell_fits :: "Piece \<Rightarrow> GameBoard \<Rightarrow> int \<Rightarrow> int \<Rightarrow> int \<Rightarrow> int \<Rightarrow> bool" where
  "cell_fits p b x_adjustment y_adjustment x y \<longleftrightarrow>
     y + piece_y p + y_adjustment < 0 \<or> \<not> occupied p x y \<or>
     (is_on_board b (x + piece_x p + x_adjustment) (y + piece_y p + y_adjustment) \<and>
      get_cell (state b) (x + piece_x p + x_adjustment) (y + piece_y p + y_adjustment) = Inr BLANK)"

text \<open>\<^verbatim>\<open>rotate_clockwise\<close> called \<open>k\<close> times in a row on the same board.\<close>

fun rotate_clockwise_times :: "nat \<Rightarrow> Piece \<Rightarrow> GameBoard \<Rightarrow> error + Piece" where
  "rotate_clockwise_times 0 p b = Inr p"
| "rotate_clockwise_times (Suc k) p b =
     (case rotate_clockwise p b of Inl e \<Rightarrow> Inl e | Inr p' \<Rightarrow> rotate_clockwise_times k p' b)"

text \<open>The board of the default arguments, \<^verbatim>\<open>GameBoard(0, 0, 1)\<close>: 10 by 20, all blank.\<close>

definition default_board :: GameBoard where
  "default_board = GameBoard_init 0 0 1 10 20"

text \<open>An example board: \<open>b\<close> with the cell of column \<open>c\<close>, row \<open>r\<close> set to \<open>v\<close>.\<close>

definition paint :: "GameBoard \<Rightarrow> nat \<Rightarrow> nat \<Rightarrow> cell \<Rightarrow> GameBoard" where
  "paint b c r v = b\<lparr>state := (state b)[c := (state b ! c)[r := v]]\<rparr>"

text \<open>A state with the dimensions of board \<open>b\<close>.\<close>

definition grid :: "GameBoard \<Rightarrow> cell list list \<Rightarrow> bool" where
  "grid b st \<longleftrightarrow> length st = nat (columns b) \<and> (\<forall>col\<in>set st. length col = nat (rows b))"

text \<open>
  A column after the removal of row \<open>j\<close>: the cells above \<open>j\<close> one row lower, a blank
  on top, the cells below \<open>j\<close> as they were.
\<close>

definition shift_column :: "nat \<Rightarrow> cell list \<Rightarrow> cell list" where
  "shift_column j col = BLANK # take j col @ drop (Suc j) col"

text \<open>Row \<open>k\<close> of a state holds no blank; the number of such rows among the first \<open>k\<close>.\<close>

definition row_complete :: "cell list list \<Rightarrow> nat \<Rightarrow> bool" where
  "row_complete st k \<longleftrightarrow> list_all (\<lambda>col. col ! k \<noteq> BLANK) st"

definition complete_rows :: "cell list list \<Rightarrow> nat \<Rightarrow> nat" where
  "complete_rows st k = length (filter (row_complete st) [0..<k])"

text \<open>
  The example of the specification: a 10 by 20 board whose row 19 is fully coloured
  (colours 0 to 3 cycling) and whose row 18 is coloured in columns 0 to 8.
\<close>

definition example_board :: GameBoard where
  "example_board = default_board
     \<lparr>state := map (\<lambda>x. replicate 18 BLANK @
                          [if x < 9 then Colour (int x mod 4) else BLANK, Colour (int x mod 4)])
                 [0..<10]\<rparr>"

text \<open>The number of coloured cells of a state.\<close>

definition coloured_cells :: "cell list list \<Rightarrow> nat" where
  "coloured_cells st = sum_list (map (\<lambda>col. length (filter (\<lambda>c. c \<noteq> BLANK) col)) st)"

subsection \<open>Levels\<close>

text \<open>
  \<^verbatim>\<open>calculate_level\<close>, on integers. \<^verbatim>\<open>calculate_fall_frequency\<close> subtracts and
  multiplies Python floats; it is not called by \<^verbatim>\<open>distractor\<close> and is left out.
\<close>

definition calculate_level :: "int \<Rightarrow> int" where
  "calculate_level score = score div LINES_PER_LEVEL + 1"

subsection \<open>The loop of distractor\<close>

text \<open>
  The keys the loop tells apart, and the events \<^verbatim>\<open>pygame.event.get()\<close> returns.
\<close>

datatype key = K_LEFT | K_a | K_RIGHT | K_d | K_DOWN | K_s | K_SPACE | K_UP | K_w | K_q
  | K_ESCAPE | K_BACKSPACE | K_other nat

datatype event = QUIT | KEYUP key | KEYDOWN key | OTHER_EVENT

definition MOVE_LEFT :: "key list" where "MOVE_LEFT = [K_LEFT, K_a]"
definition MOVE_RIGHT :: "key list" where "MOVE_RIGHT = [K_RIGHT, K_d]"
definition MOVE_DOWN :: "key list" where "MOVE_DOWN = [K_DOWN, K_s]"
definition MOVE_TO_BOTTOM :: "key list" where "MOVE_TO_BOTTOM = [K_SPACE]"
definition ROTATE_CLOCKWISE :: "key list" where "ROTATE_CLOCKWISE = [K_UP, K_w]"
definition ROTATE_COUNTERCLOCKWISE :: "key list" where "ROTATE_COUNTERCLOCKWISE = [K_q]"

text \<open>
  The arguments of \<^verbatim>\<open>distractor\<close> that reach the game. \<open>fit_cell_size\<close>,
  \<open>fit_x_margin\<close> and \<open>fit_top_margin\<close> stand for what \<^verbatim>\<open>fit_board_to_screen\<close>
  returns for the display at hand. Instructions, sound and the data file are
  left out.
\<close>

record config =
  duration :: real
  columns_arg :: int
  rows_arg :: int
  top_exclude :: real
  right_exclude :: real
  bottom_exclude :: real
  left_exclude :: real
  fall_frequency :: real
  fps :: int
  press_to_quit :: "key list"
  fit_cell_size :: int
  fit_x_margin :: int
  fit_top_margin :: int

text \<open>
  What the loop reads from outside: the successive results of \<^verbatim>\<open>time.time()\<close>, of
  the random draws of \<^verbatim>\<open>Piece(game_board)\<close> and of \<^verbatim>\<open>pygame.event.get()\<close>.
  Times are real numbers; the rounding of a float subtraction is not modelled.
\<close>

record world =
  clock :: "nat \<Rightarrow> real"
  draws :: "nat \<Rightarrow> draw"
  event_queue :: "nat \<Rightarrow> event list"

text \<open>
  The local variables of \<^verbatim>\<open>distractor\<close> (\<open>session_lines\<close> and \<open>session_losses\<close> are
  \<^verbatim>\<open>lines\<close> and \<^verbatim>\<open>losses\<close>), and how many clock reads, draws and event polls have
  been made.
\<close>

record session =
  game_board :: GameBoard
  falling_piece :: "Piece option"
  next_piece :: Piece
  session_lines :: int
  session_losses :: int
  moving_down :: bool
  moving_left :: bool
  moving_right :: bool
  last_move_down_time :: real
  last_move_sideways_time :: real
  last_fall_time :: real
  clock_reads :: nat
  pieces_drawn :: nat
  polls :: nat

definition time_time :: "world \<Rightarrow> session \<Rightarrow> real \<times> session" where
  "time_time w s = (clock w (clock_reads s), s\<lparr>clock_reads := Suc (clock_reads s)\<rparr>)"

definition new_Piece :: "world \<Rightarrow> session \<Rightarrow> Piece \<times> session" where
  "new_Piece w s =
     (random_Piece (game_board s) (draws w (pieces_drawn s)),
      s\<lparr>pieces_drawn := Suc (pieces_drawn s)\<rparr>)"

definition event_get :: "world \<Rightarrow> session \<Rightarrow> event list \<times> session" where
  "event_get w s = (event_queue w (polls s), s\<lparr>polls := Suc (polls s)\<rparr>)"

text \<open>A method call on \<^verbatim>\<open>falling_piece\<close>, which may be \<^verbatim>\<open>None\<close>.\<close>

definition the_piece :: "session \<Rightarrow> error + Piece" where
  "the_piece s = (case falling_piece s of None \<Rightarrow> Inl AttributeError | Some p \<Rightarrow> Inr p)"

text \<open>
  The block \<^verbatim>\<open>if not falling_piece:\<close> at the head of the loop body: promote the
  next piece, draw a new next piece, and on a blocked spawn count a loss, reset the
  board, clear the flags and timers and draw two new pieces.
\<close>

definition spawn_stage :: "world \<Rightarrow> session \<Rightarrow> error + session" where
  "spawn_stage w s =
     (case falling_piece s of
        Some p \<Rightarrow> Inr s
      | None \<Rightarrow>
          (let fp = next_piece s;
               (np, s1) = new_Piece w (s\<lparr>falling_piece := Some fp\<rparr>);
               (t, s2) = time_time w (s1\<lparr>next_piece := np\<rparr>);
               s3 = s2\<lparr>last_fall_time := t\<rparr>
           in case is_valid_position fp (game_board s3) 0 0 of
                Inl e \<Rightarrow> Inl e
              | Inr fits \<Rightarrow>
                  if \<not> fits then
                    (let s4 = s3\<lparr>session_losses := session_losses s3 + 1,
                                  game_board := reset (game_board s3),
                                  moving_down := False, moving_left := False,
                                  moving_right := False\<rparr>;
                         (t1, s5) = time_time w s4;
                         (t2, s6) = time_time w (s5\<lparr>last_move_down_time := t1\<rparr>);
                         (t3, s7) = time_time w (s6\<lparr>last_move_sideways_time := t2\<rparr>);
                         (p1, s8) = new_Piece w (s7\<lparr>last_fall_time := t3\<rparr>);
                         (p2, s9) = new_Piece w (s8\<lparr>falling_piece := Some p1\<rparr>)
                     in Inr (s9\<lparr>next_piece := p2\<rparr>))
                  else Inr s3))"

text \<open>
  The \<^verbatim>\<open>KEYDOWN\<close> chain, last branch first. A branch \<^verbatim>\<open>key in KEYS and legal\<close>
  whose move is not legal falls through to the branches after it.
\<close>

definition key_down_bottom :: "key \<Rightarrow> session \<Rightarrow> error + session" where
  "key_down_bottom k s =
     (if k \<in> set MOVE_TO_BOTTOM then
        (let s1 = s\<lparr>moving_left := False, moving_right := False, moving_down := False\<rparr> in
         case the_piece s1 of
           Inl e \<Rightarrow> Inl e
         | Inr p \<Rightarrow>
             (case move_to_bottom p (game_board s1) of
                Inl e \<Rightarrow> Inl e
              | Inr p' \<Rightarrow> Inr (s1\<lparr>falling_piece := Some p'\<rparr>)))
      else Inr s)"

definition key_down_soft :: "world \<Rightarrow> key \<Rightarrow> session \<Rightarrow> error + session" where
  "key_down_soft w k s =
     (if k \<in> set MOVE_DOWN then
        (case the_piece s of
           Inl e \<Rightarrow> Inl e
         | Inr p \<Rightarrow>
             (case legal_down p (game_board s) of
                Inl e \<Rightarrow> Inl e
              | Inr legal \<Rightarrow>
                  if legal then
                    (let (t, s1) = time_time w
                           (s\<lparr>moving_down := True, falling_piece := Some (move_down p)\<rparr>)
                     in Inr (s1\<lparr>last_move_down_time := t\<rparr>))
                  else key_down_bottom k s))
      else key_down_bottom k s)"

definition key_down_rotate :: "world \<Rightarrow> key \<Rightarrow> session \<Rightarrow> error + session" where
  "key_down_rotate w k s =
     (if k \<in> set ROTATE_CLOCKWISE then
        (case the_piece s of
           Inl e \<Rightarrow> Inl e
         | Inr p \<Rightarrow>
             (case rotate_clockwise p (game_board s) of
                Inl e \<Rightarrow> Inl e
              | Inr p' \<Rightarrow> Inr (s\<lparr>falling_piece := Some p'\<rparr>)))
      else if k \<in> set ROTATE_COUNTERCLOCKWISE then
        (case the_piece s of
           Inl e \<Rightarrow> Inl e
         | Inr p \<Rightarrow>
             (case rotate_counterclockwise p (game_board s) of
                Inl e \<Rightarrow> Inl e
              | Inr p' \<Rightarrow> Inr (s\<lparr>falling_piece := Some p'\<rparr>)))
      else key_down_soft w k s)"

definition key_down_right :: "world \<Rightarrow> key \<Rightarrow> session \<Rightarrow> error + session" where
  "key_down_right w k s =
     (if k \<in> set MOVE_RIGHT then
        (case the_piece s of
           Inl e \<Rightarrow> Inl e
         | Inr p \<Rightarrow>
             (case legal_right p (game_board s) of
                Inl e \<Rightarrow> Inl e
              | Inr legal \<Rightarrow>
                  if legal then
                    (let (t, s1) = time_time w
                           (s\<lparr>falling_piece := Some (move_right p), moving_right := True,
                              moving_left := False\<rparr>)
                     in Inr (s1\<lparr>last_move_sideways_time := t\<rparr>))
                  else key_down_rotate w k s))
      else key_down_rotate w k s)"

definition key_down :: "world \<Rightarrow> key \<Rightarrow> session \<Rightarrow> error + session" where
  "key_down w k s =
     (if k \<in> set MOVE_LEFT then
        (case the_piece s of
           Inl e \<Rightarrow> Inl e
         | Inr p \<Rightarrow>
             (case legal_left p (game_board s) of
                Inl e \<Rightarrow> Inl e
              | Inr legal \<Rightarrow>
                  if legal then
                    (let (t, s1) = time_time w
                           (s\<lparr>falling_piece := Some (move_left p), moving_left := True,
                              moving_right := False\<rparr>)
                     in Inr (s1\<lparr>last_move_sideways_time := t\<rparr>))
                  else key_down_right w k s))
      else key_down_right w k s)"

text \<open>One round of \<^verbatim>\<open>for event in pygame.event.get()\<close>; \<^verbatim>\<open>generic.terminate\<close> ends in \<^verbatim>\<open>sys.exit()\<close>.\<close>

fun handle_event :: "config \<Rightarrow> world \<Rightarrow> event \<Rightarrow> session \<Rightarrow> error + session" where
  "handle_event cfg w QUIT s = Inl SystemExit"
| "handle_event cfg w (KEYUP k) s =
     (if k \<in> set (press_to_quit cfg) then Inl SystemExit
      else if k \<in> set MOVE_LEFT then Inr (s\<lparr>moving_left := False\<rparr>)
      else if k \<in> set MOVE_RIGHT then Inr (s\<lparr>moving_right := False\<rparr>)
      else if k \<in> set MOVE_DOWN then Inr (s\<lparr>moving_down := False\<rparr>)
      else Inr s)"
| "handle_event cfg w (KEYDOWN k) s = key_down w k s"
| "handle_event cfg w OTHER_EVENT s = Inr s"

fun handle_events :: "config \<Rightarrow> world \<Rightarrow> event list \<Rightarrow> session \<Rightarrow> error + session" where
  "handle_events cfg w [] s = Inr s"
| "handle_events cfg w (ev # rest) s =
     (case handle_event cfg w ev s of Inl e \<Rightarrow> Inl e | Inr s' \<Rightarrow> handle_events cfg w rest s')"

definition event_stage :: "config \<Rightarrow> world \<Rightarrow> session \<Rightarrow> error + session" where
  "event_stage cfg w s = (let (evs, s1) = event_get w s in handle_events cfg w evs s1)"

text \<open>
  The two blocks that repeat a held move; \<open>repeat_left\<close> and \<open>repeat_right\<close> are the
  two \<^verbatim>\<open>if moving_... and falling_piece.legal_...(game_board)\<close> statements of the
  first block.
\<close>

definition repeat_left :: "session \<Rightarrow> error + session" where
  "repeat_left s =
     (if moving_left s then
        (case the_piece s of
           Inl e \<Rightarrow> Inl e
         | Inr p \<Rightarrow>
             (case legal_left p (game_board s) of
                Inl e \<Rightarrow> Inl e
              | Inr legal \<Rightarrow>
                  Inr (if legal then s\<lparr>falling_piece := Some (move_left p)\<rparr> else s)))
      else Inr s)"

definition repeat_right :: "session \<Rightarrow> error + session" where
  "repeat_right s =
     (if moving_right s then
        (case the_piece s of
           Inl e \<Rightarrow> Inl e
         | Inr p \<Rightarrow>
             (case legal_right p (game_board s) of
                Inl e \<Rightarrow> Inl e
              | Inr legal \<Rightarrow>
                  Inr (if legal then s\<lparr>falling_piece := Some (move_right p)\<rparr> else s)))
      else Inr s)"

definition held_sideways :: "world \<Rightarrow> session \<Rightarrow> error + session" where
  "held_sideways w s =
     (if moving_left s \<or> moving_right s then
        (let (t, s1) = time_time w s in
         if t - last_move_sideways_time s1 > MOVE_SIDEWAYS_FREQUENCY then
           (case repeat_left s1 of
              Inl e \<Rightarrow> Inl e
            | Inr s2 \<Rightarrow>
                (case repeat_right s2 of
                   Inl e \<Rightarrow> Inl e
                 | Inr s3 \<Rightarrow>
                     (let (t', s4) = time_time w s3 in Inr (s4\<lparr>last_move_sideways_time := t'\<rparr>))))
         else Inr s1)
      else Inr s)"

definition held_down :: "world \<Rightarrow> session \<Rightarrow> error + session" where
  "held_down w s =
     (if moving_down s then
        (let (t, s1) = time_time w s in
         if t - last_move_down_time s1 > MOVE_DOWN_FREQUENCY then
           (case the_piece s1 of
              Inl e \<Rightarrow> Inl e
            | Inr p \<Rightarrow>
                (case legal_down p (game_board s1) of
                   Inl e \<Rightarrow> Inl e
                 | Inr legal \<Rightarrow>
                     if legal then
                       (let (t', s2) = time_time w (s1\<lparr>falling_piece := Some (move_down p)\<rparr>)
                        in Inr (s2\<lparr>last_move_down_time := t'\<rparr>))
                     else Inr s1))
         else Inr s1)
      else Inr s)"

text \<open>
  The block \<^verbatim>\<open>if time.time()-last_fall_time > fall_frequency:\<close>. \<open>fall_frequency\<close> is
  the keyword argument of \<^verbatim>\<open>distractor\<close>; nothing in the loop assigns it. \<open>None\<close>
  stands for a call of \<^verbatim>\<open>remove_complete_lines\<close> that does not return.
\<close>

definition gravity_stage :: "config \<Rightarrow> world \<Rightarrow> session \<Rightarrow> (error + session) option" where
  "gravity_stage cfg w s =
     (let (t, s1) = time_time w s in
      if t - last_fall_time s1 > fall_frequency cfg then
        (case the_piece s1 of
           Inl e \<Rightarrow> Some (Inl e)
         | Inr p \<Rightarrow>
             (case legal_down p (game_board s1) of
                Inl e \<Rightarrow> Some (Inl e)
              | Inr legal \<Rightarrow>
                  if \<not> legal then
                    (case add_to_board p (game_board s1) of
                       Inl e \<Rightarrow> Some (Inl e)
                     | Inr b1 \<Rightarrow>
                         (case remove_complete_lines b1 of
                            None \<Rightarrow> None
                          | Some r \<Rightarrow>
                              (case r of
                                 Inl e \<Rightarrow> Some (Inl e)
                               | Inr (new_lines, b2) \<Rightarrow>
                                   Some (Inr (s1\<lparr>game_board := b2,
                                                 session_lines := session_lines s1 + new_lines,
                                                 falling_piece := None\<rparr>)))))
                  else
                    (let (t', s2) = time_time w (s1\<lparr>falling_piece := Some (move_down p)\<rparr>)
                     in Some (Inr (s2\<lparr>last_fall_time := t'\<rparr>)))))
      else Some (Inr s1))"

text \<open>The loop body (drawing and \<^verbatim>\<open>c.tick(fps)\<close> change no variable of the game).\<close>

definition loop_body :: "config \<Rightarrow> world \<Rightarrow> session \<Rightarrow> (error + session) option" where
  "loop_body cfg w s =
     (case spawn_stage w s of
        Inl e \<Rightarrow> Some (Inl e)
      | Inr s1 \<Rightarrow>
          (case event_stage cfg w s1 of
             Inl e \<Rightarrow> Some (Inl e)
           | Inr s2 \<Rightarrow>
               (case held_sideways w s2 of
                  Inl e \<Rightarrow> Some (Inl e)
                | Inr s3 \<Rightarrow>
                    (case held_down w s3 of
                       Inl e \<Rightarrow> Some (Inl e)
                     | Inr s4 \<Rightarrow> gravity_stage cfg w s4))))"

text \<open>\<^verbatim>\<open>while time.time() < finish_time\<close>; \<open>None\<close> stands for a session that never ends.\<close>

partial_function (option) distractor_loop ::
  "config \<Rightarrow> world \<Rightarrow> real \<Rightarrow> session \<Rightarrow> (error + session) option" where
  "distractor_loop cfg w finish_time s =
     (let (t, s1) = time_time w s in
      if t < finish_time then
        (case loop_body cfg w s1 of
           None \<Rightarrow> None
         | Some r \<Rightarrow>
             (case r of
                Inl e \<Rightarrow> Some (Inl e)
              | Inr s2 \<Rightarrow> distractor_loop cfg w finish_time s2))
      else Some (Inr s1))"

declare distractor_loop.simps [code]

text \<open>
  \<^verbatim>\<open>distractor\<close> from its assertions to its \<^verbatim>\<open>return lines, losses\<close>: the board, the
  first two pieces, the flags, three timers, the start time, the loop.
\<close>

definition initial_session :: "config \<Rightarrow> world \<Rightarrow> real \<times> session" where
  "initial_session cfg w =
     (let b = GameBoard_init (fit_x_margin cfg) (fit_top_margin cfg) (fit_cell_size cfg)
                (columns_arg cfg) (rows_arg cfg);
          s = \<lparr>game_board = b,
               falling_piece = Some (random_Piece b (draws w 0)),
               next_piece = random_Piece b (draws w 1),
               session_lines = 0, session_losses = 0,
               moving_down = False, moving_left = False, moving_right = False,
               last_move_down_time = clock w 0,
               last_move_sideways_time = clock w 1,
               last_fall_time = clock w 2,
               clock_reads = 4, pieces_drawn = 2, polls = 0\<rparr>
      in (clock w 3 + duration cfg, s))"

definition distractor :: "config \<Rightarrow> world \<Rightarrow> (error + int \<times> int) option" where
  "distractor cfg w =
     (if \<not> (columns_arg cfg > 4 \<and> rows_arg cfg > 4) then Some (Inl AssertionError)
      else if \<not> fps cfg > 0 then Some (Inl AssertionError)
      else if \<not> (0 \<le> top_exclude cfg + bottom_exclude cfg \<and>
                  top_exclude cfg + bottom_exclude cfg < 1) then Some (Inl AssertionError)
      else if \<not> (0 \<le> left_exclude cfg + right_exclude cfg \<and>
                  left_exclude cfg + right_exclude cfg < 1) then Some (Inl AssertionError)
      else
        (let (finish_time, s) = initial_session cfg w in
         case distractor_loop cfg w finish_time s of
           None \<Rightarrow> None
         | Some r \<Rightarrow>
             (case r of
                Inl e \<Rightarrow> Some (Inl e)
              | Inr s' \<Rightarrow> Some (Inr (session_lines s', session_losses s')))))"

text \<open>The default keyword arguments, one second of play, a cell of one pixel.\<close>

definition default_config :: config where
  "default_config =
     \<lparr>duration = 1, columns_arg = 10, rows_arg = 20,
      top_exclude = 25 / 1000, right_exclude = 25 / 1000,
      bottom_exclude = 25 / 1000, left_exclude = 25 / 1000,
      fall_frequency = 3 / 10, fps = 30, press_to_quit = [K_ESCAPE],
      fit_cell_size = 1, fit_x_margin = 0, fit_top_margin = 0\<rparr>"

text \<open>
  An example world: the \<open>n\<close>-th clock read returns \<open>0.31 n\<close> seconds, every draw is
  the T shape, no event ever arrives. Three example sessions on it: one at 10 lines
  with a T piece falling on the blank board, 0.31 seconds after the last fall; the
  same with the T piece resting on the bottom row; one whose falling piece has just
  landed and whose next piece is blocked by a coloured cell at column 4, row 0.
\<close>

definition example_world :: world where
  "example_world =
     \<lparr>clock = (\<lambda>n. 31 * real n / 100), draws = (\<lambda>n. (T_SHAPE, 0, 0)),
      event_queue = (\<lambda>n. [])\<rparr>"

definition example_session :: session where
  "example_session =
     \<lparr>game_board = default_board,
      falling_piece = Some (Piece_init default_board T_SHAPE 0 0),
      next_piece = Piece_init default_board T_SHAPE 0 0,
      session_lines = 10, session_losses = 0,
      moving_down = False, moving_left = False, moving_right = False,
      last_move_down_time = 0, last_move_sideways_time = 0, last_fall_time = 0,
      clock_reads = 1, pieces_drawn = 0, polls = 0\<rparr>"

definition landing_session :: session where
  "landing_session =
     example_session
       \<lparr>falling_piece := Some ((Piece_init default_board T_SHAPE 0 0)\<lparr>piece_y := 17\<rparr>)\<rparr>"

definition blocked_session :: session where
  "blocked_session =
     \<lparr>game_board = paint default_board 4 0 (Colour 1),
      falling_piece = None,
      next_piece = Piece_init default_board T_SHAPE 0 0,
      session_lines = 3, session_losses = 0,
      moving_down = True, moving_left = True, moving_right = False,
      last_move_down_time = 0, last_move_sideways_time = 0, last_fall_time = 0,
      clock_reads = 0, pieces_drawn = 0, polls = 0\<rparr>"

text \<open>
  A session in which a landing raises: column 9 of the board is coloured from row 2
  down, a J piece in its second orientation has just spawned (column 3, row \<open>-2\<close>),
  the first poll returns four presses of the right arrow, every draw is that J
  piece, and each clock read is one second later than the one before.
\<close>

definition tower_board :: GameBoard where
  "tower_board = default_board
     \<lparr>state := (state default_board)[9 := replicate 2 BLANK @ replicate 18 (Colour 1)]\<rparr>"

definition crash_world :: world where
  "crash_world =
     \<lparr>clock = (\<lambda>n. real n), draws = (\<lambda>n. (J_SHAPE, 1, 2)),
      event_queue = (\<lambda>n. if n = 0 then replicate 4 (KEYDOWN K_RIGHT) else [])\<rparr>"

definition crash_session :: session where
  "crash_session =
     \<lparr>game_board = tower_board,
      falling_piece = Some (Piece_init tower_board J_SHAPE 1 2),
      next_piece = Piece_init tower_board J_SHAPE 1 2,
      session_lines = 0, session_losses = 0,
      moving_down = False, moving_left = False, moving_right = False,
      last_move_down_time = 0, last_move_sideways_time = 0, last_fall_time = 0,
      clock_reads = 0, pieces_drawn = 0, polls = 0\<rparr>"

text \<open>
  The session \<open>s'\<close> as it would be had the run that led from \<open>s\<close> to it started with
  a lines total of \<open>n\<close> instead of \<open>session_lines s\<close>.
\<close>

definition shift_lines :: "session \<Rightarrow> int \<Rightarrow> session \<Rightarrow> session" where
  "shift_lines s n s' = s'\<lparr>session_lines := session_lines s' - session_lines s + n\<rparr>"

section \<open>Theorems\<close>

subsection \<open>Indexing, templates and the position test\<close>

lemma xrange_5: "xrange 5 = [0, 1, 2, 3, 4]"
  by (simp add: xrange_def upt_rec)

lemma set_xrange: "set (xrange n) = {0..<n}"
proof (rule set_eqI)
  fix i
  show "i \<in> set (xrange n) \<longleftrightarrow> i \<in> {0..<n}"
  proof
    assume "i \<in> set (xrange n)"
    then obtain k where "k < nat n" "i = int k" by (auto simp: xrange_def)
    then show "i \<in> {0..<n}" by auto
  next
    assume "i \<in> {0..<n}"
    then have "nat i < nat n" "i = int (nat i)" by auto
    then show "i \<in> set (xrange n)" unfolding xrange_def by (metis atLeast0LessThan imageI lessThan_iff set_map set_upt)
  qed
qed

lemma PIECES_all_5x5:
  "list_all (\<lambda>t. length t = 5 \<and> list_all (\<lambda>l. length l = 5) t) (PIECES sh)"
  by (cases sh) (simp_all add: S_SHAPE_TEMPLATE_def Z_SHAPE_TEMPLATE_def J_SHAPE_TEMPLATE_def
      L_SHAPE_TEMPLATE_def I_SHAPE_TEMPLATE_def O_SHAPE_TEMPLATE_def T_SHAPE_TEMPLATE_def)

lemma PIECES_5x5: "t \<in> set (PIECES sh) \<Longrightarrow> length t = 5 \<and> (\<forall>l\<in>set t. length l = 5)"
  using PIECES_all_5x5[of sh] by (simp add: list_all_iff)

lemma getitem_in_set: "getitem xs i = Inr v \<Longrightarrow> v \<in> set xs"
  by (auto simp: getitem_def index_ok_def norm_index_def split: if_splits)

lemma getitem_nonneg: "0 \<le> i \<Longrightarrow> i < int (length xs) \<Longrightarrow> getitem xs i = Inr (xs ! nat i)"
  by (simp add: getitem_def index_ok_def norm_index_def)

lemma template_cell_total:
  assumes "index_ok (PIECES (shape p)) (orientation p)" "0 \<le> x" "x < 5" "0 \<le> y" "y < 5"
  shows "\<exists>ch. template_cell p y x = Inr ch"
proof -
  obtain t where t: "getitem (PIECES (shape p)) (orientation p) = Inr t"
    using assms(1) by (simp add: getitem_def)
  then have "t \<in> set (PIECES (shape p))" by (rule getitem_in_set)
  then have sz: "length t = 5" "\<forall>l\<in>set t. length l = 5"
    using PIECES_5x5 by blast+
  have l: "getitem t y = Inr (t ! nat y)" using sz assms by (simp add: getitem_nonneg)
  have "t ! nat y \<in> set t" using sz assms by simp
  then have "length (t ! nat y) = 5" using sz by blast
  then have "getitem (t ! nat y) x = Inr (t ! nat y ! nat x)" using assms by (simp add: getitem_nonneg)
  then show ?thesis using t l by (simp add: template_cell_def)
qed

lemma wf_get_cell:
  assumes "wf_board b" "is_on_board b c r"
  shows "get_cell (state b) c r = Inr (state b ! nat c ! nat r)"
proof -
  have c: "0 \<le> c" "c < int (length (state b))" "0 \<le> r" "r < rows b"
    using assms by (auto simp: wf_board_def is_on_board_def split: if_splits)
  then have "state b ! nat c \<in> set (state b)" by simp
  then have "length (state b ! nat c) = nat (rows b)"
    using assms(1) by (simp add: wf_board_def list_all_iff)
  then show ?thesis using c by (simp add: get_cell_def getitem_nonneg)
qed

lemma is_valid_position_column_eq:
  assumes "wf_board b" "index_ok (PIECES (shape p)) (orientation p)" "0 \<le> x" "x < 5"
    and "set ys \<subseteq> {0..<5}"
  shows "is_valid_position_column p b xa ya x ys valid =
         Inr (valid \<and> (\<forall>y\<in>set ys. cell_fits p b xa ya x y))"
  using assms(5)
proof (induction ys)
  case Nil
  then show ?case by simp
next
  case (Cons y ys)
  then have y: "0 \<le> y" "y < 5" and ys: "set ys \<subseteq> {0..<5}" by auto
  obtain ch where ch: "template_cell p y x = Inr ch"
    using template_cell_total[OF assms(2,3,4) y] by blast
  show ?case
  proof (cases "is_on_board b (x + piece_x p + xa) (y + piece_y p + ya)")
    case True
    then show ?thesis using Cons.IH[OF ys] ch wf_get_cell[OF assms(1) True]
      by (auto simp: cell_fits_def occupied_def Let_def)
  next
    case False
    then show ?thesis using Cons.IH[OF ys] ch
      by (auto simp: cell_fits_def occupied_def Let_def)
  qed
qed

lemma for_each_valid:
  assumes "\<And>x valid. x \<in> set xs \<Longrightarrow> body x valid = Inr (valid \<and> P x)"
  shows "for_each xs body valid = Inr (valid \<and> (\<forall>x\<in>set xs. P x))"
  using assms by (induction xs arbitrary: valid) auto

lemma is_valid_position_eq:
  assumes "wf_board b" "index_ok (PIECES (shape p)) (orientation p)"
  shows "is_valid_position p b xa ya =
         Inr (\<forall>x\<in>{0..<5}. \<forall>y\<in>{0..<5}. cell_fits p b xa ya x y)"
proof -
  have "for_each (xrange TEMPLATE_WIDTH)
       (\<lambda>x valid. is_valid_position_column p b xa ya x (xrange TEMPLATE_HEIGHT) valid) True
     = Inr (True \<and> (\<forall>x\<in>set (xrange TEMPLATE_WIDTH). \<forall>y\<in>set (xrange TEMPLATE_HEIGHT). cell_fits p b xa ya x y))"
    by (rule for_each_valid)
       (simp add: is_valid_position_column_eq[OF assms] set_xrange TEMPLATE_WIDTH_def TEMPLATE_HEIGHT_def)
  then show ?thesis
    by (simp add: is_valid_position_def set_xrange TEMPLATE_WIDTH_def TEMPLATE_HEIGHT_def)
qed

lemma occupied_index_ok: "occupied p x y \<Longrightarrow> index_ok (PIECES (shape p)) (orientation p)"
  by (auto simp: occupied_def template_cell_def getitem_def split: sum.splits if_splits)

lemma ball_0_5: "(\<forall>x\<in>{0..<5::int}. P x) \<longleftrightarrow> P 0 \<and> P 1 \<and> P 2 \<and> P 3 \<and> P 4"
proof -
  have "{0..<5::int} = {0, 1, 2, 3, 4}" by auto
  then show ?thesis by simp
qed

lemma PIECES_nonempty: "0 < length (PIECES sh)"
  by (cases sh) (simp_all add: S_SHAPE_TEMPLATE_def Z_SHAPE_TEMPLATE_def J_SHAPE_TEMPLATE_def
      L_SHAPE_TEMPLATE_def I_SHAPE_TEMPLATE_def O_SHAPE_TEMPLATE_def T_SHAPE_TEMPLATE_def)

lemma step_mod: "((a + 1) mod n + int k) mod n = (a + int (Suc k)) mod (n::int)"
proof -
  have "((a + 1) mod n + int k) mod n = (a + 1 + int k) mod n" by (rule mod_add_left_eq)
  also have "a + 1 + int k = a + int (Suc k)" by simp
  finally show ?thesis .
qed

lemma rotate_clockwise_valid:
  assumes "is_valid_position (p\<lparr>orientation := (orientation p + 1) mod int (length (PIECES (shape p)))\<rparr>) b 0 0 = Inr True"
  shows "rotate_clockwise p b = Inr (p\<lparr>orientation := (orientation p + 1) mod int (length (PIECES (shape p)))\<rparr>)"
  using assms by (simp add: rotate_clockwise_def Let_def)

lemma rotate_clockwise_times_valid:
  assumes "n = int (length (PIECES (shape p)))"
    and "\<forall>k\<in>{1..j}. is_valid_position (p\<lparr>orientation := (orientation p + int k) mod n\<rparr>) b 0 0 = Inr True"
  shows "rotate_clockwise_times j p b = Inr (p\<lparr>orientation := (orientation p + int j) mod n\<rparr>) \<or> j = 0"
  using assms
proof (induction j arbitrary: p)
  case 0
  then show ?case by simp
next
  case (Suc j)
  let ?p1 = "p\<lparr>orientation := (orientation p + 1) mod n\<rparr>"
  have "is_valid_position ?p1 b 0 0 = Inr True" using Suc.prems(2) by force
  then have r: "rotate_clockwise p b = Inr ?p1"
    using rotate_clockwise_valid[of p b] Suc.prems(1) by simp
  have n1: "n = int (length (PIECES (shape ?p1)))" using Suc.prems(1) by simp
  have v: "\<forall>k\<in>{1..j}. is_valid_position (?p1\<lparr>orientation := (orientation ?p1 + int k) mod n\<rparr>) b 0 0 = Inr True"
  proof
    fix k assume k: "k \<in> {1..j}"
    have "(orientation ?p1 + int k) mod n = (orientation p + int (Suc k)) mod n"
      by (simp add: step_mod)
    moreover have "Suc k \<in> {1..Suc j}" using k by simp
    ultimately show "is_valid_position (?p1\<lparr>orientation := (orientation ?p1 + int k) mod n\<rparr>) b 0 0 = Inr True"
      using Suc.prems(2) by (metis (no_types, lifting) Piece.surjective Piece.update_convs(2))
  qed
  show ?case
  proof (cases "j = 0")
    case True
    then show ?thesis using r by simp
  next
    case False
    have "rotate_clockwise_times j ?p1 b = Inr (?p1\<lparr>orientation := (orientation ?p1 + int j) mod n\<rparr>)"
      using Suc.IH[OF n1 v] False by simp
    moreover have "(orientation ?p1 + int j) mod n = (orientation p + int (Suc j)) mod n"
      by (simp add: step_mod)
    ultimately show ?thesis using r by simp
  qed
qed

subsection \<open>C2: dimensions of a constructed board\<close>

text \<open>
  C2 (fails on the code). The claim: a board constructed with \<open>c > 4\<close> columns and
  \<open>r > 4\<close> rows is a \<open>c\<close> by \<open>r\<close> grid, \<^verbatim>\<open>is_on_board(col, row)\<close> holds exactly when
  \<open>0 \<le> col < c\<close> and \<open>0 \<le> row < r\<close>, and \<^verbatim>\<open>reset()\<close> keeps the dimensions. The
  constructor stores 10 and 20 whatever it is given: for \<open>c = 5\<close>, \<open>r = 5\<close> the state
  has 5 columns of 5 cells, yet \<^verbatim>\<open>is_on_board(7, 7)\<close> is true, the board is not
  well formed, and \<^verbatim>\<open>reset()\<close> replaces the state by 10 columns of 20 cells.
\<close>

theorem GameBoard_init_ignores_dimensions:
  "length (state (GameBoard_init 0 0 1 5 5)) = 5 \<and>
   list_all (\<lambda>col. length col = 5) (state (GameBoard_init 0 0 1 5 5)) \<and>
   is_on_board (GameBoard_init 0 0 1 5 5) 7 7 = True \<and>
   \<not> wf_board (GameBoard_init 0 0 1 5 5) \<and>
   length (state (reset (GameBoard_init 0 0 1 5 5))) = 10 \<and>
   list_all (\<lambda>col. length col = 20) (state (reset (GameBoard_init 0 0 1 5 5)))"
  by (simp add: GameBoard_init_def is_on_board_def wf_board_def reset_def list_all_iff)

subsection \<open>C3: an overlapping or outlying cell makes the position invalid\<close>

text \<open>
  C3. On every board whose state is a \<open>columns\<close> by \<open>rows\<close> grid and for every piece,
  \<^verbatim>\<open>is_valid_position(B, 0, 0)\<close> returns false whenever some occupied cell of the
  piece's current orientation grid, placed at the piece's position, overlaps a
  non-blank cell of the board or lies at a non-negative row outside
  \<open>[0, columns) \<times> [0, rows)\<close>.
\<close>

theorem is_valid_position_false_on_overlap_or_outside:
  assumes "wf_board b"
    and "0 \<le> x" "x < TEMPLATE_WIDTH" "0 \<le> y" "y < TEMPLATE_HEIGHT"
    and "occupied p x y"
    and "(is_on_board b (x + piece_x p) (y + piece_y p) \<and>
          get_cell (state b) (x + piece_x p) (y + piece_y p) \<noteq> Inr BLANK) \<or>
         (0 \<le> y + piece_y p \<and> \<not> is_on_board b (x + piece_x p) (y + piece_y p))"
  shows "is_valid_position p b 0 0 = Inr False"
proof -
  have ok: "index_ok (PIECES (shape p)) (orientation p)"
    using assms(6) by (rule occupied_index_ok)
  have above: "\<not> y + piece_y p < 0"
    using assms(7) by (auto simp: is_on_board_def split: if_splits)
  have "\<not> cell_fits p b 0 0 x y"
    using assms(6,7) above by (auto simp: cell_fits_def)
  moreover have "x \<in> {0..<5}" "y \<in> {0..<5}"
    using assms(2-5) by (simp_all add: TEMPLATE_WIDTH_def TEMPLATE_HEIGHT_def)
  ultimately have "\<not> (\<forall>x\<in>{0..<5}. \<forall>y\<in>{0..<5}. cell_fits p b 0 0 x y)" by blast
  then show ?thesis by (simp add: is_valid_position_eq[OF assms(1) ok])
qed

text \<open>
  The T piece as spawned on the default board, after the cell of column 4, row 0 has
  been coloured: its occupied template position (1, 2) lands on that cell.
\<close>

theorem is_valid_position_false_witness:
  "wf_board (paint default_board 4 0 (Colour 1)) \<and>
   occupied (Piece_init default_board T_SHAPE 0 0) 1 2 \<and>
   is_on_board (paint default_board 4 0 (Colour 1))
     (1 + piece_x (Piece_init default_board T_SHAPE 0 0))
     (2 + piece_y (Piece_init default_board T_SHAPE 0 0)) \<and>
   get_cell (state (paint default_board 4 0 (Colour 1)))
     (1 + piece_x (Piece_init default_board T_SHAPE 0 0))
     (2 + piece_y (Piece_init default_board T_SHAPE 0 0)) \<noteq> Inr BLANK \<and>
   is_valid_position (Piece_init default_board T_SHAPE 0 0)
     (paint default_board 4 0 (Colour 1)) 0 0 = Inr False"
proof -
  let ?b = "paint default_board 4 0 (Colour 1)"
  let ?p = "Piece_init default_board T_SHAPE 0 0"
  have wf: "wf_board ?b" by code_simp
  have occ: "occupied ?p 1 2" by code_simp
  have on: "is_on_board ?b (1 + piece_x ?p) (2 + piece_y ?p)" by code_simp
  have col: "get_cell (state ?b) (1 + piece_x ?p) (2 + piece_y ?p) \<noteq> Inr BLANK" by code_simp
  have "is_valid_position ?p ?b 0 0 = Inr False"
    using is_valid_position_false_on_overlap_or_outside[OF wf _ _ _ _ occ, of]  on col
    by (simp add: TEMPLATE_WIDTH_def TEMPLATE_HEIGHT_def)
  then show ?thesis using wf occ on col by blast
qed

subsection \<open>C9: cells above the board are not tested at all\<close>

text \<open>
  C9. \<^verbatim>\<open>is_valid_position\<close> skips every occupied cell whose row is negative, the
  column test included: whatever the columns of the cells above the board, the
  position is reported valid as soon as every occupied cell at a non-negative row is
  on the board and lands on a blank cell.
\<close>

theorem is_valid_position_ignores_cells_above_board:
  assumes "wf_board b" and "index_ok (PIECES (shape p)) (orientation p)"
    and "\<forall>x\<in>{0..<TEMPLATE_WIDTH}. \<forall>y\<in>{0..<TEMPLATE_HEIGHT}.
           occupied p x y \<and> 0 \<le> y + piece_y p \<longrightarrow>
           is_on_board b (x + piece_x p) (y + piece_y p) \<and>
           get_cell (state b) (x + piece_x p) (y + piece_y p) = Inr BLANK"
  shows "is_valid_position p b 0 0 = Inr True"
proof -
  have "\<forall>x\<in>{0..<5}. \<forall>y\<in>{0..<5}. cell_fits p b 0 0 x y"
    using assms(3) unfolding cell_fits_def TEMPLATE_WIDTH_def TEMPLATE_HEIGHT_def
    by (metis add.right_neutral not_le)
  then show ?thesis by (simp add: is_valid_position_eq[OF assms(1,2)])
qed

text \<open>
  The L piece in its fourth orientation at \<open>x = -2\<close>, \<open>y = -2\<close> on the blank default
  board: its occupied position (1, 1) is at column \<open>-1\<close> and row \<open>-1\<close>, left of the
  board, and the position is valid.
\<close>

theorem is_valid_position_ignores_cells_above_board_witness:
  "occupied \<lparr>shape = L_SHAPE, orientation = 3, piece_x = - 2, piece_y = - 2, colour = 0\<rparr> 1 1 \<and>
   1 + piece_y \<lparr>shape = L_SHAPE, orientation = 3, piece_x = - 2, piece_y = - 2, colour = 0\<rparr> < 0 \<and>
   1 + piece_x \<lparr>shape = L_SHAPE, orientation = 3, piece_x = - 2, piece_y = - 2, colour = 0\<rparr> < 0 \<and>
   is_valid_position \<lparr>shape = L_SHAPE, orientation = 3, piece_x = - 2, piece_y = - 2, colour = 0\<rparr>
     default_board 0 0 = Inr True"
proof -
  let ?p = "\<lparr>shape = L_SHAPE, orientation = 3, piece_x = - 2, piece_y = - 2, colour = 0\<rparr>"
  have wf: "wf_board default_board" by code_simp
  have ok: "index_ok (PIECES (shape ?p)) (orientation ?p)" by code_simp
  have occ: "occupied ?p 1 1" by code_simp
  have cells: "\<forall>x\<in>{0..<TEMPLATE_WIDTH}. \<forall>y\<in>{0..<TEMPLATE_HEIGHT}.
           occupied ?p x y \<and> 0 \<le> y + piece_y ?p \<longrightarrow>
           is_on_board default_board (x + piece_x ?p) (y + piece_y ?p) \<and>
           get_cell (state default_board) (x + piece_x ?p) (y + piece_y ?p) = Inr BLANK"
    unfolding TEMPLATE_WIDTH_def TEMPLATE_HEIGHT_def ball_0_5 by code_simp
  show ?thesis
    using is_valid_position_ignores_cells_above_board[OF wf ok cells] occ by simp
qed

subsection \<open>C7: clockwise rotation is cyclic\<close>

text \<open>
  C7. For a piece of a kind with \<open>n\<close> orientations whose orientation index \<open>o\<close> is in
  \<open>[0, n)\<close>, on a board where each of the orientations met on the way is a valid
  position, \<open>k\<close> calls of \<^verbatim>\<open>rotate_clockwise\<close> leave the piece with orientation
  index \<open>(o + k) mod n\<close> and nothing else changed; so the piece is back at its
  original orientation exactly when \<open>k\<close> is a multiple of \<open>n\<close>: rotation is cyclic
  of order \<open>n\<close> (four calls for J, L and T).
\<close>

theorem rotate_clockwise_cyclic:
  assumes "n = length (PIECES (shape p))"
    and "0 \<le> orientation p" "orientation p < int n"
    and "\<forall>j\<in>{1..k}. is_valid_position
           (p\<lparr>orientation := (orientation p + int j) mod int n\<rparr>) b 0 0 = Inr True"
  shows "rotate_clockwise_times k p b =
           Inr (p\<lparr>orientation := (orientation p + int k) mod int n\<rparr>) \<and>
         (rotate_clockwise_times k p b = Inr p \<longleftrightarrow> n dvd k)"
proof -
  have same: "p\<lparr>orientation := orientation p\<rparr> = p" by simp
  have run: "rotate_clockwise_times k p b =
           Inr (p\<lparr>orientation := (orientation p + int k) mod int n\<rparr>)"
  proof (cases "k = 0")
    case True
    then show ?thesis using assms(2,3) by simp
  next
    case False
    then show ?thesis
      using rotate_clockwise_times_valid[of "int n" p k b] assms(1,4) by simp
  qed
  have "(orientation p + int k) mod int n = orientation p \<longleftrightarrow> n dvd k"
  proof -
    have "orientation p = orientation p mod int n" using assms(2,3) by simp
    then have "(orientation p + int k) mod int n = orientation p \<longleftrightarrow>
               (orientation p + int k) mod int n = orientation p mod int n" by simp
    also have "\<dots> \<longleftrightarrow> int n dvd (orientation p + int k) - orientation p"
      by (rule mod_eq_dvd_iff)
    also have "\<dots> \<longleftrightarrow> n dvd k" by simp
    finally show ?thesis .
  qed
  moreover have "p\<lparr>orientation := x\<rparr> = p \<longleftrightarrow> x = orientation p" for x
    by (metis Piece.select_convs(2) Piece.surjective Piece.update_convs(2) same)
  ultimately show ?thesis using run by simp
qed

text \<open>
  A T piece (four orientations) in its second orientation, inside the blank default
  board: every orientation fits; one rotation gives the third orientation, three
  rotations do not give the piece back, four do.
\<close>

theorem rotate_clockwise_cyclic_witness:
  "length (PIECES T_SHAPE) = 4 \<and>
   rotate_clockwise_times 4
     \<lparr>shape = T_SHAPE, orientation = 1, piece_x = 3, piece_y = 5, colour = 2\<rparr> default_board =
   Inr \<lparr>shape = T_SHAPE, orientation = 1, piece_x = 3, piece_y = 5, colour = 2\<rparr> \<and>
   rotate_clockwise_times 1
     \<lparr>shape = T_SHAPE, orientation = 1, piece_x = 3, piece_y = 5, colour = 2\<rparr> default_board =
   Inr \<lparr>shape = T_SHAPE, orientation = 2, piece_x = 3, piece_y = 5, colour = 2\<rparr> \<and>
   rotate_clockwise_times 3
     \<lparr>shape = T_SHAPE, orientation = 1, piece_x = 3, piece_y = 5, colour = 2\<rparr> default_board \<noteq>
   Inr \<lparr>shape = T_SHAPE, orientation = 1, piece_x = 3, piece_y = 5, colour = 2\<rparr>"
proof -
  let ?p = "\<lparr>shape = T_SHAPE, orientation = 1, piece_x = 3, piece_y = 5, colour = 2\<rparr>"
  have n: "4 = length (PIECES (shape ?p))" by code_simp
  have o: "0 \<le> orientation ?p" "orientation ?p < int 4" by simp_all
  have each: "is_valid_position
           (?p\<lparr>orientation := (orientation ?p + int j) mod int 4\<rparr>) default_board 0 0 = Inr True"
    if "j \<in> {1..4}" for j :: nat
  proof -
    from that consider "j = 1" | "j = 2" | "j = 3" | "j = 4" by force
    then show ?thesis
    proof cases
      case 1 then show ?thesis by simp code_simp
    next
      case 2 then show ?thesis by simp code_simp
    next
      case 3 then show ?thesis by simp code_simp
    next
      case 4 then show ?thesis by simp code_simp
    qed
  qed
  have v4: "\<forall>j\<in>{1..4}. is_valid_position
           (?p\<lparr>orientation := (orientation ?p + int j) mod int 4\<rparr>) default_board 0 0 = Inr True"
    using each by blast
  have v1: "\<forall>j\<in>{1..1}. is_valid_position
           (?p\<lparr>orientation := (orientation ?p + int j) mod int 4\<rparr>) default_board 0 0 = Inr True"
  proof
    fix j :: nat assume "j \<in> {1..1}"
    then have "j \<in> {1..4}" by simp
    then show "is_valid_position
           (?p\<lparr>orientation := (orientation ?p + int j) mod int 4\<rparr>) default_board 0 0 = Inr True"
      by (rule each)
  qed
  have v3: "\<forall>j\<in>{1..3}. is_valid_position
           (?p\<lparr>orientation := (orientation ?p + int j) mod int 4\<rparr>) default_board 0 0 = Inr True"
  proof
    fix j :: nat assume "j \<in> {1..3}"
    then have "j \<in> {1..4}" by simp
    then show "is_valid_position
           (?p\<lparr>orientation := (orientation ?p + int j) mod int 4\<rparr>) default_board 0 0 = Inr True"
      by (rule each)
  qed
  have r4: "rotate_clockwise_times 4 ?p default_board = Inr ?p"
    using rotate_clockwise_cyclic[OF n o v4] by simp
  have r1: "rotate_clockwise_times 1 ?p default_board = Inr (?p\<lparr>orientation := 2\<rparr>)"
    using rotate_clockwise_cyclic[OF n o v1] by simp
  have r3: "rotate_clockwise_times 3 ?p default_board \<noteq> Inr ?p"
    using rotate_clockwise_cyclic[OF n o v3] by simp
  show ?thesis using n r4 r1 r3 by simp
qed

subsection \<open>C6: the hard drop\<close>

text \<open>
  Every template has its centre position (2, 2) occupied, so a piece whose row is at
  least the spawn row \<open>-2\<close> always has a cell at a non-negative row. The loop of
  \<^verbatim>\<open>move_to_bottom\<close> runs \<^verbatim>\<open>b.rows - 1\<close> rounds at most, which is just enough from
  the spawn row.
\<close>

lemma PIECES_centre:
  "list_all (\<lambda>t. t ! 2 ! 2 \<noteq> BLANK_char) (PIECES sh)"
  by (cases sh) (simp_all add: S_SHAPE_TEMPLATE_def Z_SHAPE_TEMPLATE_def J_SHAPE_TEMPLATE_def
      L_SHAPE_TEMPLATE_def I_SHAPE_TEMPLATE_def O_SHAPE_TEMPLATE_def T_SHAPE_TEMPLATE_def
      BLANK_char_def)

lemma centre_occupied:
  assumes "index_ok (PIECES (shape p)) (orientation p)"
  shows "occupied p 2 2"
proof -
  obtain t where t: "getitem (PIECES (shape p)) (orientation p) = Inr t"
    using assms by (simp add: getitem_def)
  then have mem: "t \<in> set (PIECES (shape p))" by (rule getitem_in_set)
  then have sz: "length t = 5" "\<forall>l\<in>set t. length l = 5"
    using PIECES_5x5 by blast+
  have "t ! 2 \<in> set t" using sz by simp
  then have l5: "length (t ! 2) = 5" using sz by blast
  have "getitem t 2 = Inr (t ! 2)" using sz getitem_nonneg[of 2 t] by simp
  moreover have "getitem (t ! 2) 2 = Inr (t ! 2 ! 2)" using l5 getitem_nonneg[of 2 "t ! 2"] by simp
  moreover have "t ! 2 ! 2 \<noteq> BLANK_char"
    using PIECES_centre[of "shape p"] mem by (simp add: list_all_iff)
  ultimately show ?thesis using t by (simp add: occupied_def template_cell_def)
qed

lemma legal_down_bool:
  assumes "wf_board b" "index_ok (PIECES (shape p)) (orientation p)"
  shows "legal_down p b = Inr True \<or> legal_down p b = Inr False"
  using is_valid_position_eq[OF assms, of 0 1] by (auto simp: legal_down_def)

lemma move_to_bottom_loop_result:
  assumes "wf_board b" "index_ok (PIECES (shape p)) (orientation p)"
  shows "\<exists>k\<le>length rounds.
           move_to_bottom_loop b rounds p = Inr (p\<lparr>piece_y := piece_y p + int k\<rparr>) \<and>
           (\<forall>j<k. legal_down (p\<lparr>piece_y := piece_y p + int j\<rparr>) b = Inr True) \<and>
           (k < length rounds \<longrightarrow> legal_down (p\<lparr>piece_y := piece_y p + int k\<rparr>) b = Inr False)"
  using assms(2)
proof (induction rounds arbitrary: p)
  case Nil
  then show ?case by simp
next
  case (Cons i rounds)
  show ?case
  proof (cases "legal_down p b = Inr True")
    case True
    let ?q = "p\<lparr>piece_y := piece_y p + 1\<rparr>"
    have "index_ok (PIECES (shape ?q)) (orientation ?q)" using Cons.prems by simp
    from Cons.IH[OF this] obtain k where k: "k \<le> length rounds"
      "move_to_bottom_loop b rounds ?q = Inr (?q\<lparr>piece_y := piece_y ?q + int k\<rparr>)"
      "\<forall>j<k. legal_down (?q\<lparr>piece_y := piece_y ?q + int j\<rparr>) b = Inr True"
      "k < length rounds \<longrightarrow> legal_down (?q\<lparr>piece_y := piece_y ?q + int k\<rparr>) b = Inr False"
      by blast
    have shift: "\<And>j. ?q\<lparr>piece_y := piece_y ?q + int j\<rparr> = p\<lparr>piece_y := piece_y p + int (Suc j)\<rparr>"
      by (simp add: add.assoc add.commute)
    note k' = k(2-4)[unfolded shift]
    have all: "\<forall>j<Suc k. legal_down (p\<lparr>piece_y := piece_y p + int j\<rparr>) b = Inr True"
    proof (intro allI impI)
      fix j assume "j < Suc k"
      show "legal_down (p\<lparr>piece_y := piece_y p + int j\<rparr>) b = Inr True"
      proof (cases j)
        case 0
        then show ?thesis using True by simp
      next
        case (Suc j')
        then have "j' < k" using \<open>j < Suc k\<close> by simp
        then show ?thesis using k'(2) Suc by blast
      qed
    qed
    have "move_to_bottom_loop b (i # rounds) p = Inr (p\<lparr>piece_y := piece_y p + int (Suc k)\<rparr>)"
      using True k'(1) by (simp del: of_nat_Suc)
    moreover have "Suc k < length (i # rounds) \<longrightarrow>
        legal_down (p\<lparr>piece_y := piece_y p + int (Suc k)\<rparr>) b = Inr False"
      using k'(3) by (simp del: of_nat_Suc)
    ultimately show ?thesis using k(1) all
      by (intro exI[of _ "Suc k"]) (simp del: of_nat_Suc)
  next
    case False
    then have f: "legal_down p b = Inr False"
      using legal_down_bool[OF assms(1) Cons.prems] by blast
    then show ?thesis by (intro exI[of _ 0]) simp
  qed
qed

lemma legal_down_false_below_board:
  assumes "wf_board b" "index_ok (PIECES (shape q)) (orientation q)"
    and "rows b \<le> 2 + piece_y q + 1"
  shows "legal_down q b = Inr False"
proof -
  have occ: "occupied q 2 2" using assms(2) by (rule centre_occupied)
  have "0 \<le> rows b" using assms(1) by (simp add: wf_board_def)
  then have "\<not> cell_fits q b 0 1 2 2"
    using occ assms(3) by (auto simp: cell_fits_def is_on_board_def)
  then have "\<not> (\<forall>x\<in>{0..<5}. \<forall>y\<in>{0..<5}. cell_fits q b 0 1 x y)" by force
  then show ?thesis by (simp add: legal_down_def is_valid_position_eq[OF assms(1,2)])
qed

text \<open>
  C6. For every well-formed board and every piece the code can hold, that is, with
  its orientation index inside the index range of its kind's orientation list
  (\<open>index_ok\<close>) and its row at least \<^verbatim>\<open>NEW_PIECES_START_Y\<close> (the constructor sets
  \<^verbatim>\<open>y = -2\<close>, and \<^verbatim>\<open>move_down\<close> and \<^verbatim>\<open>move_to_bottom\<close> only increase it),
  \<^verbatim>\<open>move_to_bottom\<close> raises nothing, moves the piece down by some \<open>k\<close> rows, every
  step on the way was a legal move down, and \<^verbatim>\<open>legal_down\<close> is false where the
  piece stops: it is at the lowest legal row. The claim's premise that the piece
  starts in a valid position is not needed.
\<close>

theorem move_to_bottom_reaches_lowest_row:
  assumes "wf_board b" and "index_ok (PIECES (shape p)) (orientation p)"
    and "NEW_PIECES_START_Y \<le> piece_y p"
  shows "\<exists>k. move_to_bottom p b = Inr (p\<lparr>piece_y := piece_y p + int k\<rparr>) \<and>
             legal_down (p\<lparr>piece_y := piece_y p + int k\<rparr>) b = Inr False \<and>
             (\<forall>j<k. legal_down (p\<lparr>piece_y := piece_y p + int j\<rparr>) b = Inr True)"
proof -
  let ?rounds = "xrange_from 1 (rows b)"
  have len: "length ?rounds = nat (rows b - 1)" by (simp add: xrange_from_def)
  obtain k where k: "k \<le> length ?rounds"
      "move_to_bottom_loop b ?rounds p = Inr (p\<lparr>piece_y := piece_y p + int k\<rparr>)"
      "\<forall>j<k. legal_down (p\<lparr>piece_y := piece_y p + int j\<rparr>) b = Inr True"
      "k < length ?rounds \<longrightarrow> legal_down (p\<lparr>piece_y := piece_y p + int k\<rparr>) b = Inr False"
    using move_to_bottom_loop_result[OF assms(1,2), of ?rounds] by blast
  let ?q = "p\<lparr>piece_y := piece_y p + int k\<rparr>"
  have "legal_down ?q b = Inr False"
  proof (cases "k < length ?rounds")
    case True
    then show ?thesis using k(4) by simp
  next
    case False
    then have "k = nat (rows b - 1)" using k(1) len by simp
    then have "rows b \<le> 2 + piece_y ?q + 1"
      using assms(3) by (simp add: NEW_PIECES_START_Y_def)
    moreover have "index_ok (PIECES (shape ?q)) (orientation ?q)" using assms(2) by simp
    ultimately show ?thesis using legal_down_false_below_board[OF assms(1)] by blast
  qed
  then show ?thesis using k(2,3) by (auto simp: move_to_bottom_def)
qed

text \<open>A J piece as spawned on the blank default board drops from row \<open>-2\<close> to row 17.\<close>

theorem move_to_bottom_reaches_lowest_row_witness:
  "wf_board default_board \<and>
   index_ok (PIECES (shape (Piece_init default_board J_SHAPE 0 1)))
     (orientation (Piece_init default_board J_SHAPE 0 1)) \<and>
   NEW_PIECES_START_Y \<le> piece_y (Piece_init default_board J_SHAPE 0 1) \<and>
   move_to_bottom (Piece_init default_board J_SHAPE 0 1) default_board =
     Inr ((Piece_init default_board J_SHAPE 0 1)\<lparr>piece_y := 17\<rparr>) \<and>
   legal_down ((Piece_init default_board J_SHAPE 0 1)\<lparr>piece_y := 17\<rparr>) default_board = Inr False"
proof -
  let ?p = "Piece_init default_board J_SHAPE 0 1"
  have wf: "wf_board default_board" by code_simp
  have ok: "index_ok (PIECES (shape ?p)) (orientation ?p)" by code_simp
  have y: "NEW_PIECES_START_Y \<le> piece_y ?p" by code_simp
  have m: "move_to_bottom ?p default_board = Inr (?p\<lparr>piece_y := 17\<rparr>)" by code_simp
  obtain k where "move_to_bottom ?p default_board = Inr (?p\<lparr>piece_y := piece_y ?p + int k\<rparr>)"
    "legal_down (?p\<lparr>piece_y := piece_y ?p + int k\<rparr>) default_board = Inr False"
    using move_to_bottom_reaches_lowest_row[OF wf ok y] by blast
  then have "legal_down (?p\<lparr>piece_y := 17\<rparr>) default_board = Inr False"
    using m by simp
  then show ?thesis using wf ok y m by blast
qed

subsection \<open>C8: merging a piece that is partly above the board\<close>

text \<open>
  One assignment \<^verbatim>\<open>b.state[c][r] = colour\<close> with both indices inside Python's range
  keeps the dimensions, keeps every cell that already holds the colour, and leaves
  the colour at row \<open>rows + r\<close> when \<open>r\<close> is negative.
\<close>

lemma wf_board_grid: "wf_board b \<Longrightarrow> grid b (state b)"
  by (simp add: wf_board_def grid_def list_all_iff)

lemma for_each_establish:
  assumes "\<And>i s. i \<in> set xs \<Longrightarrow> I s \<Longrightarrow>
             \<exists>s'. body i s = Inr s' \<and> I s' \<and> (Q s \<or> E i \<longrightarrow> Q s')"
    and "I s"
  shows "\<exists>s'. for_each xs body s = Inr s' \<and> I s' \<and> (Q s \<or> (\<exists>i\<in>set xs. E i) \<longrightarrow> Q s')"
  using assms
proof (induction xs arbitrary: s)
  case Nil
  then show ?case by simp
next
  case (Cons i xs)
  obtain s1 where s1: "body i s = Inr s1" "I s1" "Q s \<or> E i \<longrightarrow> Q s1"
    using Cons.prems(1)[of i s] Cons.prems(2) by auto
  have "\<exists>s'. for_each xs body s1 = Inr s' \<and> I s' \<and> (Q s1 \<or> (\<exists>i\<in>set xs. E i) \<longrightarrow> Q s')"
    using Cons.IH[of s1] Cons.prems(1) s1(2) by simp
  then show ?case using s1 by auto
qed

lemma norm_index_lt: "index_ok xs i \<Longrightarrow> norm_index xs i < length xs"
  by (auto simp: index_ok_def norm_index_def)

lemma getitem_Inr_iff:
  "getitem xs i = Inr a \<longleftrightarrow> index_ok xs i \<and> a = xs ! norm_index xs i"
  by (auto simp: getitem_def)

lemma get_cell_Inr_iff:
  "get_cell st c r = Inr a \<longleftrightarrow>
     index_ok st c \<and> index_ok (st ! norm_index st c) r \<and>
     a = st ! norm_index st c ! norm_index (st ! norm_index st c) r"
  by (auto simp: get_cell_def getitem_def)

lemma set_cell_grid:
  assumes "grid b st" "- columns b \<le> c" "c < columns b" "- rows b \<le> r" "r < rows b"
  shows "\<exists>st'. set_cell st c r v = Inr st' \<and> grid b st' \<and>
           (\<forall>c' r'. get_cell st c' r' = Inr v \<longrightarrow> get_cell st' c' r' = Inr v) \<and>
           get_cell st' c (if r < 0 then rows b + r else r) = Inr v"
proof -
  let ?nc = "norm_index st c"
  let ?col = "st ! ?nc"
  have okc: "index_ok st c" using assms by (simp add: grid_def index_ok_def)
  have nc: "?nc < length st" using okc by (rule norm_index_lt)
  then have lcol: "length ?col = nat (rows b)" using assms(1) by (simp add: grid_def)
  let ?nr = "norm_index ?col r"
  have okr: "index_ok ?col r" using assms lcol by (simp add: index_ok_def)
  have nr: "?nr < length ?col" using okr by (rule norm_index_lt)
  let ?col' = "?col[?nr := v]"
  let ?st' = "st[?nc := ?col']"
  have eq: "set_cell st c r v = Inr ?st'"
    using okc okr by (simp add: set_cell_def getitem_def setitem_def)
  have g: "grid b ?st'"
    using assms(1) lcol nc unfolding grid_def
    by (auto dest!: set_update_subset_insert[THEN subsetD])
  have ok_st: "index_ok ?st' i = index_ok st i" for i by (simp add: index_ok_def)
  have nm_st: "norm_index ?st' i = norm_index st i" for i by (simp add: norm_index_def)
  have ok_col: "index_ok ?col' i = index_ok ?col i" for i by (simp add: index_ok_def)
  have nm_col: "norm_index ?col' i = norm_index ?col i" for i by (simp add: norm_index_def)
  have keep: "get_cell ?st' c' r' = Inr v" if h: "get_cell st c' r' = Inr v" for c' r'
  proof -
    let ?n' = "norm_index st c'"
    from h have c': "index_ok st c'" and r': "index_ok (st ! ?n') r'"
      and val: "st ! ?n' ! norm_index (st ! ?n') r' = v"
      by (simp_all add: get_cell_Inr_iff)
    have n': "?n' < length st" using c' by (rule norm_index_lt)
    show ?thesis
    proof (cases "?n' = ?nc")
      case True
      have "?st' ! ?n' = ?col'" using True nc by simp
      moreover have "?col' ! norm_index ?col r' = v"
        using val True norm_index_lt[OF okr] r'
        by (cases "norm_index ?col r' = ?nr") (simp_all add: norm_index_lt)
      ultimately show ?thesis using c' r' True
        by (simp add: get_cell_Inr_iff ok_st nm_st ok_col nm_col)
    next
      case False
      then have "?st' ! ?n' = st ! ?n'" by simp
      then show ?thesis using c' r' val
        by (simp add: get_cell_Inr_iff ok_st nm_st)
    qed
  qed
  let ?r2 = "if r < 0 then rows b + r else r"
  have ok2: "index_ok ?col ?r2" using assms lcol by (auto simp: index_ok_def)
  have nm2: "norm_index ?col ?r2 = ?nr" using assms lcol by (auto simp: norm_index_def add.commute)
  have "?st' ! ?nc = ?col'" using nc by simp
  then have hit: "get_cell ?st' c ?r2 = Inr v"
    using okc ok2 nm2 nr
    by (simp add: get_cell_Inr_iff ok_st nm_st ok_col nm_col del: norm_index_def)
  show ?thesis using eq g keep hit by blast
qed

lemma add_to_board_cell_step:
  assumes "grid b st" "index_ok (PIECES (shape p)) (orientation p)"
    and "0 \<le> x" "x < 5" "0 \<le> y" "y < 5"
    and "occupied p x y \<longrightarrow>
           - columns b \<le> x + piece_x p \<and> x + piece_x p < columns b \<and>
           - rows b \<le> y + piece_y p \<and> y + piece_y p < rows b"
  shows "\<exists>st'. add_to_board_cell p x y st = Inr st' \<and> grid b st' \<and>
           (\<forall>c' r'. get_cell st c' r' = Inr (Colour (colour p)) \<longrightarrow>
                    get_cell st' c' r' = Inr (Colour (colour p))) \<and>
           (occupied p x y \<and> y + piece_y p < 0 \<longrightarrow>
              get_cell st' (x + piece_x p) (rows b + (y + piece_y p)) = Inr (Colour (colour p)))"
proof -
  obtain ch where ch: "template_cell p y x = Inr ch"
    using template_cell_total[OF assms(2-6)] by blast
  show ?thesis
  proof (cases "ch = BLANK_char")
    case True
    then show ?thesis using ch assms(1) by (simp add: add_to_board_cell_def occupied_def)
  next
    case False
    then have occ: "occupied p x y" using ch by (simp add: occupied_def)
    then have rng: "- columns b \<le> x + piece_x p" "x + piece_x p < columns b"
      "- rows b \<le> y + piece_y p" "y + piece_y p < rows b" using assms(7) by simp_all
    from set_cell_grid[OF assms(1) rng, of "Colour (colour p)"]
    obtain st' where st': "set_cell st (x + piece_x p) (y + piece_y p) (Colour (colour p)) = Inr st'"
      "grid b st'"
      "\<forall>c' r'. get_cell st c' r' = Inr (Colour (colour p)) \<longrightarrow> get_cell st' c' r' = Inr (Colour (colour p))"
      "get_cell st' (x + piece_x p) (if y + piece_y p < 0 then rows b + (y + piece_y p) else y + piece_y p)
         = Inr (Colour (colour p))"
      by blast
    have "add_to_board_cell p x y st = Inr st'"
      using ch False st'(1) by (simp add: add_to_board_cell_def)
    then show ?thesis using st'(2,3,4) by auto
  qed
qed

text \<open>
  C8 (fails on the code). The claim: when \<^verbatim>\<open>add_to_board\<close> is called while an
  occupied cell of the piece has a negative row \<open>r\<close>, the write does not fail and the
  cell's colour goes to row \<open>rows + r\<close>. In the session above the four presses move
  the J piece from column 3 to column 7: every move is legal, because its cell at
  row \<open>-1\<close> is above the board and \<^verbatim>\<open>is_valid_position\<close> does not test its column,
  which becomes 10. The piece is in a valid position there and may not move down, so
  the gravity block of the same iteration lands it, and \<^verbatim>\<open>add_to_board\<close> raises
  \<^verbatim>\<open>IndexError\<close> on \<^verbatim>\<open>b.state[10]\<close>: the write of that cell fails and the exception
  leaves the loop of \<^verbatim>\<open>distractor\<close>.
\<close>

theorem add_to_board_raises_beside_board:
  "wf_board tower_board \<and>
   Piece_init tower_board J_SHAPE 1 2 =
     \<lparr>shape = J_SHAPE, orientation = 1, piece_x = 3, piece_y = - 2, colour = 2\<rparr> \<and>
   (case event_stage default_config crash_world crash_session of
      Inl e \<Rightarrow> False
    | Inr s \<Rightarrow> falling_piece s =
        Some \<lparr>shape = J_SHAPE, orientation = 1, piece_x = 7, piece_y = - 2, colour = 2\<rparr>) \<and>
   is_valid_position \<lparr>shape = J_SHAPE, orientation = 1, piece_x = 7, piece_y = - 2, colour = 2\<rparr>
     tower_board 0 0 = Inr True \<and>
   legal_down \<lparr>shape = J_SHAPE, orientation = 1, piece_x = 7, piece_y = - 2, colour = 2\<rparr>
     tower_board = Inr False \<and>
   occupied \<lparr>shape = J_SHAPE, orientation = 1, piece_x = 7, piece_y = - 2, colour = 2\<rparr> 3 1 \<and>
   1 + piece_y \<lparr>shape = J_SHAPE, orientation = 1, piece_x = 7, piece_y = - 2, colour = 2\<rparr> < 0 \<and>
   add_to_board \<lparr>shape = J_SHAPE, orientation = 1, piece_x = 7, piece_y = - 2, colour = 2\<rparr>
     tower_board = Inl IndexError \<and>
   loop_body default_config crash_world crash_session = Some (Inl IndexError) \<and>
   distractor_loop default_config crash_world 100 crash_session = Some (Inl IndexError)"
  by code_simp

text \<open>
  Where every occupied cell of the piece has its column index in
  \<open>[-columns, columns)\<close> and its row index in \<open>[-rows, rows)\<close>, the call does what the
  claim says: on a well-formed board \<^verbatim>\<open>add_to_board\<close> returns normally, the colour
  of an occupied cell whose row index \<open>r\<close> is negative is found afterwards at row
  \<open>rows + r\<close> of its column, and the board keeps its dimensions.
\<close>

lemma add_to_board_wraps_row_above_board:
  assumes "wf_board b"
    and "\<forall>x\<in>{0..<TEMPLATE_WIDTH}. \<forall>y\<in>{0..<TEMPLATE_HEIGHT}. occupied p x y \<longrightarrow>
           - columns b \<le> x + piece_x p \<and> x + piece_x p < columns b \<and>
           - rows b \<le> y + piece_y p \<and> y + piece_y p < rows b"
    and "0 \<le> x0" "x0 < TEMPLATE_WIDTH" "0 \<le> y0" "y0 < TEMPLATE_HEIGHT"
    and "occupied p x0 y0" and "y0 + piece_y p < 0"
  shows "\<exists>b'. add_to_board p b = Inr b' \<and>
           get_cell (state b') (x0 + piece_x p) (rows b + (y0 + piece_y p)) =
             Inr (Colour (colour p)) \<and>
           wf_board b' \<and> columns b' = columns b \<and> rows b' = rows b"
proof -
  let ?v = "Colour (colour p)"
  let ?Q = "\<lambda>st. get_cell st (x0 + piece_x p) (rows b + (y0 + piece_y p)) = Inr ?v"
  have ok: "index_ok (PIECES (shape p)) (orientation p)"
    using assms(7) by (rule occupied_index_ok)
  have inner: "\<exists>st'. for_each (xrange TEMPLATE_HEIGHT) (add_to_board_cell p x) st = Inr st' \<and>
                 grid b st' \<and> (?Q st \<or> x = x0 \<longrightarrow> ?Q st')"
    if x: "x \<in> set (xrange TEMPLATE_WIDTH)" and g: "grid b st" for x st
  proof -
    have xr: "0 \<le> x" "x < 5" using x by (simp_all add: set_xrange TEMPLATE_WIDTH_def)
    have step: "\<exists>s'. add_to_board_cell p x y s = Inr s' \<and> grid b s' \<and>
                  (?Q s \<or> (x = x0 \<and> y = y0) \<longrightarrow> ?Q s')"
      if y: "y \<in> set (xrange TEMPLATE_HEIGHT)" and gs: "grid b s" for y s
    proof -
      have yr: "0 \<le> y" "y < 5" using y by (simp_all add: set_xrange TEMPLATE_HEIGHT_def)
      have rng: "occupied p x y \<longrightarrow>
           - columns b \<le> x + piece_x p \<and> x + piece_x p < columns b \<and>
           - rows b \<le> y + piece_y p \<and> y + piece_y p < rows b"
        using assms(2) xr yr by (simp add: TEMPLATE_WIDTH_def TEMPLATE_HEIGHT_def)
      from add_to_board_cell_step[OF gs ok xr yr rng] assms(7,8)
      show ?thesis by blast
    qed
    have "\<exists>s'. for_each (xrange TEMPLATE_HEIGHT) (add_to_board_cell p x) st = Inr s' \<and>
            grid b s' \<and> (?Q st \<or> (\<exists>y\<in>set (xrange TEMPLATE_HEIGHT). x = x0 \<and> y = y0) \<longrightarrow> ?Q s')"
      by (rule for_each_establish[where I = "grid b" and Q = ?Q]) (use step g in blast)+
    moreover have "y0 \<in> set (xrange TEMPLATE_HEIGHT)" using assms(5,6) by (simp add: set_xrange)
    ultimately show ?thesis by blast
  qed
  have "\<exists>st'. for_each (xrange TEMPLATE_WIDTH)
             (\<lambda>x. for_each (xrange TEMPLATE_HEIGHT) (add_to_board_cell p x)) (state b) = Inr st' \<and>
            grid b st' \<and> (?Q (state b) \<or> (\<exists>x\<in>set (xrange TEMPLATE_WIDTH). x = x0) \<longrightarrow> ?Q st')"
    by (rule for_each_establish[where I = "grid b" and Q = ?Q])
       (use inner wf_board_grid[OF assms(1)] in blast)+
  moreover have "x0 \<in> set (xrange TEMPLATE_WIDTH)" using assms(3,4) by (simp add: set_xrange)
  ultimately obtain st' where st': "for_each (xrange TEMPLATE_WIDTH)
             (\<lambda>x. for_each (xrange TEMPLATE_HEIGHT) (add_to_board_cell p x)) (state b) = Inr st'"
     "grid b st'" "?Q st'" by blast
  have "add_to_board p b = Inr (b\<lparr>state := st'\<rparr>)" using st'(1) by (simp add: add_to_board_def)
  moreover have "wf_board (b\<lparr>state := st'\<rparr>)"
    using st'(2) assms(1) by (simp add: wf_board_def grid_def list_all_iff)
  ultimately show ?thesis using st'(3) by simp
qed

text \<open>
  The same J piece at its spawn column 3: its cell at column 6, row \<open>-1\<close> is written
  to row 19.
\<close>

lemma add_to_board_wraps_row_above_board_example:
  "wf_board default_board \<and>
   occupied \<lparr>shape = J_SHAPE, orientation = 1, piece_x = 3, piece_y = - 2, colour = 2\<rparr> 3 1 \<and>
   1 + piece_y \<lparr>shape = J_SHAPE, orientation = 1, piece_x = 3, piece_y = - 2, colour = 2\<rparr> < 0 \<and>
   (case add_to_board \<lparr>shape = J_SHAPE, orientation = 1, piece_x = 3, piece_y = - 2, colour = 2\<rparr>
           default_board of
      Inl e \<Rightarrow> False
    | Inr b' \<Rightarrow> get_cell (state b') 6 19 = Inr (Colour 2))"
proof -
  let ?p = "\<lparr>shape = J_SHAPE, orientation = 1, piece_x = 3, piece_y = - 2, colour = 2\<rparr>"
  have wf: "wf_board default_board" by code_simp
  have occ: "occupied ?p 3 1" by code_simp
  have neg: "1 + piece_y ?p < 0" by simp
  have rng: "\<forall>x\<in>{0..<TEMPLATE_WIDTH}. \<forall>y\<in>{0..<TEMPLATE_HEIGHT}. occupied ?p x y \<longrightarrow>
           - columns default_board \<le> x + piece_x ?p \<and> x + piece_x ?p < columns default_board \<and>
           - rows default_board \<le> y + piece_y ?p \<and> y + piece_y ?p < rows default_board"
    unfolding TEMPLATE_WIDTH_def TEMPLATE_HEIGHT_def ball_0_5 by code_simp
  have r: "rows default_board = 20" by code_simp
  obtain b' where "add_to_board ?p default_board = Inr b'"
    "get_cell (state b') (3 + piece_x ?p) (rows default_board + (1 + piece_y ?p)) = Inr (Colour (colour ?p))"
    using add_to_board_wraps_row_above_board[OF wf rng _ _ _ _ occ neg]
    by (auto simp: TEMPLATE_WIDTH_def TEMPLATE_HEIGHT_def)
  then show ?thesis using wf occ neg r by simp
qed

subsection \<open>Removing one line\<close>

text \<open>
  The two nested loops of the removal, column by column: on a well-formed board they
  raise nothing and replace every column by its shifted copy.
\<close>

lemma for_each_append:
  "for_each (xs @ ys) body s =
     (case for_each xs body s of Inl e \<Rightarrow> Inl e | Inr s' \<Rightarrow> for_each ys body s')"
  by (induction xs arbitrary: s) (auto split: sum.splits)

lemma for_each_columns_prefix:
  assumes "\<And>s x. x < length s \<Longrightarrow> C (s ! x) \<Longrightarrow> body (int x) s = Inr (s[x := g (s ! x)])"
    and "\<forall>col\<in>set st. C col" and "k \<le> length st"
  shows "for_each (map int [0..<k]) body st = Inr (map g (take k st) @ drop k st)"
  using assms(3)
proof (induction k)
  case 0
  then show ?case by simp
next
  case (Suc k)
  let ?s = "map g (take k st) @ drop k st"
  have k: "k < length st" using Suc.prems by simp
  have prev: "for_each (map int [0..<k]) body st = Inr ?s" using Suc by simp
  have at: "?s ! k = st ! k" using k by (simp add: nth_append)
  have "C (st ! k)" using assms(2) k by simp
  then have "body (int k) ?s = Inr (?s[k := g (st ! k)])"
    using assms(1)[of k ?s] at k by simp
  moreover have "?s[k := g (st ! k)] = map g (take (Suc k) st) @ drop (Suc k) st"
    using k by (simp add: list_update_append take_Suc_conv_app_nth
        Cons_nth_drop_Suc[symmetric] del: drop_Suc_Cons)
  ultimately show ?case using prev by (simp add: for_each_append)
qed

lemma for_each_columns:
  assumes "\<And>s x. x < length s \<Longrightarrow> C (s ! x) \<Longrightarrow> body (int x) s = Inr (s[x := g (s ! x)])"
    and "\<forall>col\<in>set st. C col" and "nat n = length st"
  shows "for_each (xrange n) body st = Inr (map g st)"
  using for_each_columns_prefix[OF assms(1,2), of "length st"] assms(3)
  by (simp add: xrange_def)

lemma copy_cell_down_column:
  assumes "x < length s" "length (s ! x) = m" "1 \<le> pdy" "pdy < int m"
  shows "copy_cell_down pdy (int x) s = Inr (s[x := (s ! x)[nat pdy := s ! x ! nat (pdy - 1)]])"
  using assms
  by (simp add: copy_cell_down_def get_cell_def set_cell_def getitem_nonneg setitem_def
      index_ok_def norm_index_def)

lemma blank_top_column:
  assumes "x < length s" "length (s ! x) = m" "0 < m"
  shows "set_cell s (int x) 0 BLANK = Inr (s[x := (s ! x)[0 := BLANK]])"
  using assms
  by (simp add: set_cell_def getitem_nonneg setitem_def index_ok_def norm_index_def)

lemma pull_rows:
  assumes "grid b st" "\<forall>pdy\<in>set ps. 1 \<le> pdy \<and> pdy < rows b"
  shows "for_each ps (\<lambda>pull_down_y. for_each (xrange (columns b)) (copy_cell_down pull_down_y)) st =
         Inr (map (fold (\<lambda>pdy col. col[nat pdy := col ! nat (pdy - 1)]) ps) st)"
  using assms
proof (induction ps arbitrary: st)
  case Nil
  then show ?case by simp
next
  case (Cons pdy ps)
  let ?g = "\<lambda>col. col[nat pdy := col ! nat (pdy - 1)]"
  have r: "1 \<le> pdy" "pdy < rows b" using Cons.prems(2) by simp_all
  have cols: "nat (columns b) = length st"
    using Cons.prems(1) by (simp add: grid_def)
  have one: "for_each (xrange (columns b)) (copy_cell_down pdy) st = Inr (map ?g st)"
  proof (rule for_each_columns[where C = "\<lambda>col. length col = nat (rows b)"])
    show "copy_cell_down pdy (int x) s = Inr (s[x := (s ! x)[nat pdy := s ! x ! nat (pdy - 1)]])"
      if "x < length s" "length (s ! x) = nat (rows b)" for s x
      using copy_cell_down_column[OF that r(1)] r(2) by simp
    show "\<forall>col\<in>set st. length col = nat (rows b)" using Cons.prems(1) by (simp add: grid_def)
    show "nat (columns b) = length st" by (rule cols)
  qed
  have g: "grid b (map ?g st)" using Cons.prems(1) by (simp add: grid_def)
  have "for_each ps (\<lambda>pull_down_y. for_each (xrange (columns b)) (copy_cell_down pull_down_y)) (map ?g st)
        = Inr (map (fold (\<lambda>pdy col. col[nat pdy := col ! nat (pdy - 1)]) ps) (map ?g st))"
    using Cons.IH[OF g] Cons.prems(2) by simp
  then show ?case using one by simp
qed

lemma pull_column_nat:
  "j < length col \<Longrightarrow>
   fold (\<lambda>k c. c[k := c ! (k - 1)]) (rev [1..<Suc j]) col =
   take 1 col @ take j col @ drop (Suc j) col"
proof (induction j arbitrary: col)
  case 0
  then show ?case by (cases col) simp_all
next
  case (Suc j)
  let ?c = "col[Suc j := col ! j]"
  have j: "j < length ?c" using Suc.prems by simp
  have "fold (\<lambda>k c. c[k := c ! (k - 1)]) (rev [1..<Suc (Suc j)]) col =
        fold (\<lambda>k c. c[k := c ! (k - 1)]) (rev [1..<Suc j]) ?c"
    by simp
  also have "\<dots> = take 1 ?c @ take j ?c @ drop (Suc j) ?c"
    by (rule Suc.IH[OF j])
  also have "take 1 ?c = take 1 col" by simp
  also have "take j ?c = take j col" by simp
  also have "drop (Suc j) ?c = col ! j # drop (Suc (Suc j)) col"
    using Suc.prems
    by (simp add: drop_update_swap Cons_nth_drop_Suc[symmetric] del: drop_Suc_Cons)
  also have "take j col @ col ! j # drop (Suc (Suc j)) col =
             take (Suc j) col @ drop (Suc (Suc j)) col"
    using Suc.prems by (simp add: take_Suc_conv_app_nth)
  finally show ?case .
qed

lemma xrange_down_nat: "xrange_down y = map int (rev [1..<Suc (nat y)])"
proof -
  have "map (\<lambda>k. 1 + int k) [0..<nat y] = map int [1..<Suc (nat y)]"
    by (simp add: map_Suc_upt[symmetric] del: upt_Suc)
  then show ?thesis by (simp add: xrange_down_def xrange_from_def rev_map)
qed

lemma pull_column:
  assumes "0 \<le> y" "nat y < length col"
  shows "(fold (\<lambda>pdy col. col[nat pdy := col ! nat (pdy - 1)]) (xrange_down y) col)[0 := BLANK] =
         shift_column (nat y) col"
proof -
  have "fold (\<lambda>pdy col. col[nat pdy := col ! nat (pdy - 1)]) (map int (rev [1..<Suc (nat y)])) col =
        fold (\<lambda>k c. c[k := c ! (k - 1)]) (rev [1..<Suc (nat y)]) col"
    unfolding fold_map
    by (rule fold_cong) (auto simp: fun_eq_iff nat_diff_distrib')
  then have "fold (\<lambda>pdy col. col[nat pdy := col ! nat (pdy - 1)]) (xrange_down y) col =
        take 1 col @ take (nat y) col @ drop (Suc (nat y)) col"
    using pull_column_nat[OF assms(2)] by (simp add: xrange_down_nat)
  moreover have "col \<noteq> []" using assms(2) by auto
  ultimately show ?thesis by (cases col) (simp_all add: shift_column_def)
qed

lemma set_xrange_down: "set (xrange_down y) = {1..y}"
proof -
  have "set (xrange_down y) = int ` {1..<Suc (nat y)}"
    unfolding xrange_down_nat set_map set_rev set_upt ..
  also have "\<dots> = {1..y}"
  proof (rule set_eqI)
    fix i
    show "i \<in> int ` {1..<Suc (nat y)} \<longleftrightarrow> i \<in> {1..y}"
    proof
      assume "i \<in> int ` {1..<Suc (nat y)}"
      then show "i \<in> {1..y}" by auto
    next
      assume "i \<in> {1..y}"
      then have "nat i \<in> {1..<Suc (nat y)}" "i = int (nat i)" by auto
      then show "i \<in> int ` {1..<Suc (nat y)}" by (metis imageI)
    qed
  qed
  finally show ?thesis .
qed

lemma length_pull:
  "length (fold (\<lambda>pdy col. col[nat pdy := col ! nat (pdy - 1)]) ps col) = length col"
  by (induction ps arbitrary: col) simp_all

lemma remove_line_eq:
  assumes "wf_board b" "0 \<le> y" "y < rows b"
  shows "remove_line b y = Inr (b\<lparr>state := map (shift_column (nat y)) (state b)\<rparr>)"
proof -
  let ?f = "fold (\<lambda>pdy col. col[nat pdy := col ! nat (pdy - 1)]) (xrange_down y)"
  have g: "grid b (state b)" using assms(1) by (rule wf_board_grid)
  have "\<forall>pdy\<in>set (xrange_down y). 1 \<le> pdy \<and> pdy < rows b"
    using assms(3) by (simp add: set_xrange_down)
  then have pull: "for_each (xrange_down y)
             (\<lambda>pull_down_y. for_each (xrange (columns b)) (copy_cell_down pull_down_y)) (state b) =
          Inr (map ?f (state b))"
    by (rule pull_rows[OF g])
  have len: "length (?f col) = length col" for col
    by (rule length_pull)
  have blank: "for_each (xrange (columns b)) (\<lambda>x st'. set_cell st' x 0 BLANK) (map ?f (state b)) =
          Inr (map (\<lambda>col. col[0 := BLANK]) (map ?f (state b)))"
  proof (rule for_each_columns[where C = "\<lambda>col. length col = nat (rows b)"])
    show "set_cell s (int x) 0 BLANK = Inr (s[x := (s ! x)[0 := BLANK]])"
      if "x < length s" "length (s ! x) = nat (rows b)" for s x
      using blank_top_column[OF that] assms(2,3) by simp
    show "\<forall>col\<in>set (map ?f (state b)). length col = nat (rows b)"
      using g by (simp add: grid_def len)
    show "nat (columns b) = length (map ?f (state b))" using g by (simp add: grid_def)
  qed
  have "map (\<lambda>col. col[0 := BLANK]) (map ?f (state b)) = map (shift_column (nat y)) (state b)"
  proof -
    have "(?f col)[0 := BLANK] = shift_column (nat y) col" if "col \<in> set (state b)" for col
    proof -
      have "length col = nat (rows b)" using g that by (simp add: grid_def)
      then show ?thesis using pull_column[OF assms(2), of col] assms(2,3) by simp
    qed
    then show ?thesis by simp
  qed
  then show ?thesis using pull blank by (simp add: remove_line_def)
qed

subsection \<open>Rows of the board and the loop of remove_complete_lines\<close>

text \<open>
  On a well-formed board \<^verbatim>\<open>is_complete_line\<close> raises nothing and says whether the
  row holds no blank. Removing row \<open>j\<close> turns row \<open>k + 1\<close> into the old row \<open>k\<close> for
  \<open>k < j\<close> and makes row 0 blank, so (with at least one column) the number of
  complete rows among rows \<open>0..j\<close> drops by one. The loop is unfolded one round at a
  time; the induction is on that number plus \<open>y + 1\<close>.
\<close>

lemma is_complete_line_loop_eq:
  assumes "grid b st" "0 \<le> y" "y < rows b" "\<forall>x\<in>set xs. 0 \<le> x \<and> x < columns b"
  shows "is_complete_line_loop st y xs = Inr (\<forall>x\<in>set xs. st ! nat x ! nat y \<noteq> BLANK)"
  using assms(4)
proof (induction xs)
  case Nil
  then show ?case by simp
next
  case (Cons x xs)
  have x: "0 \<le> x" "x < int (length st)" using Cons.prems assms(1) by (auto simp: grid_def)
  then have "st ! nat x \<in> set st" by simp
  then have "length (st ! nat x) = nat (rows b)" using assms(1) by (simp add: grid_def)
  then have "get_cell st x y = Inr (st ! nat x ! nat y)"
    using x assms(2,3) by (simp add: get_cell_def getitem_nonneg)
  then show ?case using Cons by simp
qed

lemma is_complete_line_eq:
  assumes "wf_board b" "0 \<le> y" "y < rows b"
  shows "is_complete_line b y = Inr (row_complete (state b) (nat y))"
proof -
  have g: "grid b (state b)" using assms(1) by (rule wf_board_grid)
  have "is_complete_line b y =
        Inr (\<forall>x\<in>set (xrange (columns b)). state b ! nat x ! nat y \<noteq> BLANK)"
    unfolding is_complete_line_def
    by (rule is_complete_line_loop_eq[OF g assms(2,3)]) (simp add: set_xrange)
  moreover have "(\<forall>x\<in>set (xrange (columns b)). state b ! nat x ! nat y \<noteq> BLANK) \<longleftrightarrow>
                 row_complete (state b) (nat y)"
  proof
    assume h: "\<forall>x\<in>set (xrange (columns b)). state b ! nat x ! nat y \<noteq> BLANK"
    show "row_complete (state b) (nat y)"
      unfolding row_complete_def list_all_length
    proof (intro allI impI)
      fix n assume "n < length (state b)"
      then have "int n \<in> set (xrange (columns b))" using g by (simp add: set_xrange grid_def)
      then show "state b ! n ! nat y \<noteq> BLANK" using h by force
    qed
  next
    assume h: "row_complete (state b) (nat y)"
    show "\<forall>x\<in>set (xrange (columns b)). state b ! nat x ! nat y \<noteq> BLANK"
    proof
      fix x assume "x \<in> set (xrange (columns b))"
      then have "nat x < length (state b)" using g by (simp add: set_xrange grid_def)
      then show "state b ! nat x ! nat y \<noteq> BLANK"
        using h by (simp add: row_complete_def list_all_length)
    qed
  qed
  ultimately show ?thesis by simp
qed

lemma shift_column_nth:
  assumes "j < length col" "k < length col"
  shows "shift_column j col ! k = (if k = 0 then BLANK else if k \<le> j then col ! (k - 1) else col ! k)"
proof (cases k)
  case 0
  then show ?thesis by (simp add: shift_column_def)
next
  case (Suc k')
  then show ?thesis using assms
    by (auto simp: shift_column_def nth_append min_def)
qed

lemma length_shift_column: "j < length col \<Longrightarrow> length (shift_column j col) = length col"
  by (simp add: shift_column_def)

lemma wf_board_shift:
  assumes "wf_board b" "0 \<le> y" "y < rows b"
  shows "wf_board (b\<lparr>state := map (shift_column (nat y)) (state b)\<rparr>)"
  using assms by (auto simp: wf_board_def list_all_iff length_shift_column)

lemma row_complete_shift:
  assumes "wf_board b" "0 < columns b" "j < nat (rows b)" "k < nat (rows b)"
  shows "row_complete (map (shift_column j) (state b)) k \<longleftrightarrow>
         (if k = 0 then False else if k \<le> j then row_complete (state b) (k - 1)
          else row_complete (state b) k)"
proof -
  have len: "\<forall>col\<in>set (state b). length col = nat (rows b)"
    using assms(1) by (simp add: wf_board_def list_all_iff)
  have ne: "state b \<noteq> []" using assms(1,2) by (auto simp: wf_board_def)
  have "row_complete (map (shift_column j) (state b)) k \<longleftrightarrow>
        (\<forall>col\<in>set (state b). shift_column j col ! k \<noteq> BLANK)"
    by (simp add: row_complete_def list_all_iff)
  also have "\<dots> \<longleftrightarrow> (\<forall>col\<in>set (state b).
        (if k = 0 then BLANK else if k \<le> j then col ! (k - 1) else col ! k) \<noteq> BLANK)"
    using len assms(3,4) by (simp add: shift_column_nth)
  also have "\<dots> \<longleftrightarrow> (if k = 0 then False else if k \<le> j then row_complete (state b) (k - 1)
          else row_complete (state b) k)"
    using ne by (auto simp: row_complete_def list_all_iff)
  finally show ?thesis .
qed

lemma complete_rows_shift:
  assumes "wf_board b" "0 < columns b" "j < nat (rows b)"
  shows "complete_rows (map (shift_column j) (state b)) (Suc j) = complete_rows (state b) j"
proof -
  let ?st' = "map (shift_column j) (state b)"
  have "[0..<Suc j] = 0 # map Suc [0..<j]"
    by (simp only: upt_conv_Cons[OF zero_less_Suc] map_Suc_upt)
  then have "filter (row_complete ?st') [0..<Suc j] =
             filter (row_complete ?st') (0 # map Suc [0..<j])" by (simp del: upt_Suc)
  also have "\<dots> = filter (row_complete ?st') (map Suc [0..<j])"
    using row_complete_shift[OF assms, of 0] assms(3) by simp
  also have "\<dots> = map Suc (filter (row_complete ?st' \<circ> Suc) [0..<j])"
    by (simp add: filter_map)
  also have "filter (row_complete ?st' \<circ> Suc) [0..<j] = filter (row_complete (state b)) [0..<j]"
  proof (rule filter_cong[OF refl])
    fix k assume "k \<in> set [0..<j]"
    then have "Suc k \<le> j" "Suc k < nat (rows b)" using assms(3) by simp_all
    then show "(row_complete ?st' \<circ> Suc) k = row_complete (state b) k"
      using row_complete_shift[OF assms, of "Suc k"] by simp
  qed
  finally show ?thesis by (simp add: complete_rows_def del: upt_Suc)
qed

lemma complete_rows_Suc:
  "complete_rows st (Suc k) = complete_rows st k + (if row_complete st k then 1 else 0)"
  by (simp add: complete_rows_def)

lemma complete_rows_le: "complete_rows st k \<le> k"
  unfolding complete_rows_def using length_filter_le[of "row_complete st" "[0..<k]"] by simp

lemma remove_complete_lines_loop_total:
  assumes "wf_board b" "0 < columns b" "- 1 \<le> y" "y < rows b"
  shows "\<exists>b'. remove_complete_lines_loop b y lines =
                Some (Inr (lines + int (complete_rows (state b) (nat (y + 1))), b')) \<and>
              wf_board b' \<and> columns b' = columns b \<and> rows b' = rows b"
  using assms
proof (induction "complete_rows (state b) (nat (y + 1)) + nat (y + 1)"
        arbitrary: b y lines rule: less_induct)
  case less
  show ?case
  proof (cases "0 \<le> y")
    case False
    then have "nat (y + 1) = 0" by simp
    then show ?thesis using False less.prems(1)
      by (subst remove_complete_lines_loop.simps) (simp add: complete_rows_def)
  next
    case True
    have icl: "is_complete_line b y = Inr (row_complete (state b) (nat y))"
      using is_complete_line_eq[OF less.prems(1) True less.prems(4)] .
    have suc: "nat (y + 1) = Suc (nat y)" using True by simp
    show ?thesis
    proof (cases "row_complete (state b) (nat y)")
      case rc: True
      let ?b1 = "b\<lparr>state := map (shift_column (nat y)) (state b)\<rparr>"
      have rl: "remove_line b y = Inr ?b1"
        using remove_line_eq[OF less.prems(1) True less.prems(4)] .
      have wf1: "wf_board ?b1" using wf_board_shift[OF less.prems(1) True less.prems(4)] .
      have j: "nat y < nat (rows b)" using True less.prems(4) by simp
      have cnt: "complete_rows (state ?b1) (nat (y + 1)) = complete_rows (state b) (nat y)"
        using complete_rows_shift[OF less.prems(1,2) j] suc by simp
      have old: "complete_rows (state b) (nat (y + 1)) = complete_rows (state b) (nat y) + 1"
        using rc suc by (simp add: complete_rows_Suc)
      have "complete_rows (state ?b1) (nat (y + 1)) + nat (y + 1)
            < complete_rows (state b) (nat (y + 1)) + nat (y + 1)"
        using cnt old by simp
      from less.hyps[OF this wf1, of "lines + 1"] less.prems(2,3,4)
      obtain b' where b': "remove_complete_lines_loop ?b1 y (lines + 1) =
            Some (Inr (lines + 1 + int (complete_rows (state ?b1) (nat (y + 1))), b'))"
         "wf_board b'" "columns b' = columns b" "rows b' = rows b"
        by auto
      have "remove_complete_lines_loop b y lines = remove_complete_lines_loop ?b1 y (lines + 1)"
        using True icl rc rl by (subst remove_complete_lines_loop.simps) simp
      then show ?thesis using b' cnt old by simp
    next
      case nrc: False
      have same: "complete_rows (state b) (nat (y + 1)) = complete_rows (state b) (nat (y - 1 + 1))"
        using nrc suc by (simp add: complete_rows_Suc)
      have "complete_rows (state b) (nat (y - 1 + 1)) + nat (y - 1 + 1)
            < complete_rows (state b) (nat (y + 1)) + nat (y + 1)"
        using same True by simp
      from less.hyps[OF this less.prems(1,2), of lines] True less.prems(4)
      obtain b' where b': "remove_complete_lines_loop b (y - 1) lines =
            Some (Inr (lines + int (complete_rows (state b) (nat (y - 1 + 1))), b'))"
         "wf_board b'" "columns b' = columns b" "rows b' = rows b"
        by auto
      have "remove_complete_lines_loop b y lines = remove_complete_lines_loop b (y - 1) lines"
        using True icl nrc by (subst remove_complete_lines_loop.simps) simp
      then show ?thesis using b' same by simp
    qed
  qed
qed

lemma remove_complete_lines_loop_skip:
  assumes "wf_board b" "- 1 \<le> y0" "y0 \<le> y" "y < rows b"
    and "\<forall>k. nat (y0 + 1) \<le> k \<and> k < nat (y + 1) \<longrightarrow> \<not> row_complete (state b) k"
  shows "remove_complete_lines_loop b y lines = remove_complete_lines_loop b y0 lines"
  using assms(3,4,5)
proof (induction "nat (y - y0)" arbitrary: y)
  case 0
  then have "y = y0" by simp
  then show ?case by simp
next
  case (Suc n)
  then have gt: "y0 < y" by linarith
  then have y: "0 \<le> y" using assms(2) by simp
  have "nat (y0 + 1) \<le> nat y" "nat y < nat (y + 1)" using gt assms(2) by simp_all
  then have nrc: "\<not> row_complete (state b) (nat y)" using Suc.prems(3) by blast
  have icl: "is_complete_line b y = Inr False"
    using is_complete_line_eq[OF assms(1) y Suc.prems(2)] nrc by simp
  have step: "remove_complete_lines_loop b y lines = remove_complete_lines_loop b (y - 1) lines"
    using y icl by (subst remove_complete_lines_loop.simps) simp
  have "n = nat (y - 1 - y0)" using Suc.hyps(2) by simp
  moreover have "y0 \<le> y - 1" "y - 1 < rows b" using gt Suc.prems(2) by simp_all
  moreover have "\<forall>k. nat (y0 + 1) \<le> k \<and> k < nat (y - 1 + 1) \<longrightarrow> \<not> row_complete (state b) k"
  proof (intro allI impI)
    fix k assume k: "nat (y0 + 1) \<le> k \<and> k < nat (y - 1 + 1)"
    then have "k < nat (y + 1)" by linarith
    then show "\<not> row_complete (state b) k" using k Suc.prems(3) by blast
  qed
  ultimately show ?case using Suc.hyps(1) step by simp
qed

lemma remove_complete_lines_loop_none_complete:
  assumes "wf_board b" "- 1 \<le> y" "y < rows b"
    and "\<forall>k<nat (y + 1). \<not> row_complete (state b) k"
  shows "remove_complete_lines_loop b y lines = Some (Inr (lines, b))"
proof -
  have "remove_complete_lines_loop b y lines = remove_complete_lines_loop b (- 1) lines"
    by (rule remove_complete_lines_loop_skip[OF assms(1) _ assms(2,3)]) (use assms(4) in simp_all)
  also have "\<dots> = Some (Inr (lines, b))"
    by (subst remove_complete_lines_loop.simps) simp
  finally show ?thesis .
qed

subsection \<open>C10: remove_complete_lines returns\<close>

lemma shift_column_coloured:
  assumes "j < length col" "col ! j \<noteq> BLANK"
  shows "Suc (length (filter (\<lambda>c. c \<noteq> BLANK) (shift_column j col))) =
         length (filter (\<lambda>c. c \<noteq> BLANK) col)"
proof -
  have "col = take j col @ col ! j # drop (Suc j) col"
    using assms(1) by (rule id_take_nth_drop)
  then have "length (filter (\<lambda>c. c \<noteq> BLANK) col) =
        length (filter (\<lambda>c. c \<noteq> BLANK) (take j col @ col ! j # drop (Suc j) col))"
    by simp
  then show ?thesis using assms(2) by (simp add: shift_column_def)
qed

lemma coloured_cells_shift:
  assumes "\<forall>col\<in>set st. j < length col \<and> col ! j \<noteq> BLANK"
  shows "coloured_cells (map (shift_column j) st) + length st = coloured_cells st"
  using assms
proof (induction st)
  case Nil
  then show ?case by (simp add: coloured_cells_def)
next
  case (Cons col st)
  have "Suc (length (filter (\<lambda>c. c \<noteq> BLANK) (shift_column j col))) =
         length (filter (\<lambda>c. c \<noteq> BLANK) col)"
    using Cons.prems by (intro shift_column_coloured) simp_all
  moreover have "coloured_cells (map (shift_column j) st) + length st = coloured_cells st"
    using Cons by simp
  ultimately show ?case by (simp add: coloured_cells_def)
qed

lemma remove_line_fewer_coloured:
  assumes "wf_board b" "0 < columns b" "0 \<le> y" "y < rows b"
    and "is_complete_line b y = Inr True"
  shows "\<exists>b1. remove_line b y = Inr b1 \<and> coloured_cells (state b1) < coloured_cells (state b)"
proof -
  have rc: "row_complete (state b) (nat y)"
    using is_complete_line_eq[OF assms(1,3,4)] assms(5) by simp
  have "\<forall>col\<in>set (state b). nat y < length col \<and> col ! nat y \<noteq> BLANK"
    using rc assms(1,3,4) by (auto simp: row_complete_def wf_board_def list_all_iff)
  then have "coloured_cells (map (shift_column (nat y)) (state b)) + length (state b) =
             coloured_cells (state b)"
    by (rule coloured_cells_shift)
  moreover have "0 < length (state b)" using assms(1,2) by (simp add: wf_board_def)
  ultimately have "coloured_cells (map (shift_column (nat y)) (state b)) < coloured_cells (state b)"
    by linarith
  then show ?thesis using remove_line_eq[OF assms(1,3,4)] by simp
qed

text \<open>
  C10. On every well-formed board with at least one column,
  \<^verbatim>\<open>remove_complete_lines\<close> leaves its \<^verbatim>\<open>while\<close> loop and returns a count \<open>n\<close> with
  \<open>0 \<le> n \<le> rows\<close> (the number of complete rows of the board it was given) and a
  board of the same dimensions; and each removal of a complete row leaves strictly
  fewer coloured cells.
\<close>

theorem remove_complete_lines_terminates:
  assumes "wf_board b" and "0 < columns b"
  shows "(\<exists>n b'. remove_complete_lines b = Some (Inr (n, b')) \<and> 0 \<le> n \<and> n \<le> rows b \<and>
                 n = int (complete_rows (state b) (nat (rows b))) \<and>
                 wf_board b' \<and> columns b' = columns b \<and> rows b' = rows b) \<and>
         (\<forall>y. 0 \<le> y \<and> y < rows b \<and> is_complete_line b y = Inr True \<longrightarrow>
              (\<exists>b1. remove_line b y = Inr b1 \<and>
                    coloured_cells (state b1) < coloured_cells (state b)))"
proof -
  have r: "0 \<le> rows b" using assms(1) by (simp add: wf_board_def)
  then have y: "- 1 \<le> rows b - 1" "rows b - 1 < rows b" by simp_all
  from remove_complete_lines_loop_total[OF assms y, of 0]
  obtain b' where b': "remove_complete_lines_loop b (rows b - 1) 0 =
        Some (Inr (int (complete_rows (state b) (nat (rows b))), b'))"
      "wf_board b'" "columns b' = columns b" "rows b' = rows b"
    by auto
  have "int (complete_rows (state b) (nat (rows b))) \<le> rows b"
    using complete_rows_le[of "state b" "nat (rows b)"] r by linarith
  then have "\<exists>n b'. remove_complete_lines b = Some (Inr (n, b')) \<and> 0 \<le> n \<and> n \<le> rows b \<and>
                 n = int (complete_rows (state b) (nat (rows b))) \<and>
                 wf_board b' \<and> columns b' = columns b \<and> rows b' = rows b"
    using b' by (simp add: remove_complete_lines_def)
  moreover have "\<forall>y. 0 \<le> y \<and> y < rows b \<and> is_complete_line b y = Inr True \<longrightarrow>
              (\<exists>b1. remove_line b y = Inr b1 \<and>
                    coloured_cells (state b1) < coloured_cells (state b))"
    using remove_line_fewer_coloured[OF assms] by blast
  ultimately show ?thesis by blast
qed

text \<open>The example board, whose bottom row is complete.\<close>

theorem remove_complete_lines_terminates_witness:
  "wf_board example_board \<and> 0 < columns example_board \<and>
   is_complete_line example_board 19 = Inr True \<and>
   (\<exists>n b'. remove_complete_lines example_board = Some (Inr (n, b')) \<and> 0 \<le> n \<and> n \<le> 20) \<and>
   (\<exists>b1. remove_line example_board 19 = Inr b1 \<and>
         coloured_cells (state b1) < coloured_cells (state example_board))"
proof -
  have wf: "wf_board example_board" by code_simp
  have c: "0 < columns example_board" by code_simp
  have r: "rows example_board = 20" by code_simp
  have full: "is_complete_line example_board 19 = Inr True" by code_simp
  note t = remove_complete_lines_terminates[OF wf c]
  have "\<exists>n b'. remove_complete_lines example_board = Some (Inr (n, b')) \<and> 0 \<le> n \<and> n \<le> 20"
    using t r by auto
  moreover have "\<exists>b1. remove_line example_board 19 = Inr b1 \<and>
         coloured_cells (state b1) < coloured_cells (state example_board)"
    using t r full by simp
  ultimately show ?thesis using wf c full by blast
qed

subsection \<open>C5: one complete row\<close>

text \<open>
  C5. If row \<open>y\<close> of a well-formed board with at least one column is complete and
  every other row is not, \<^verbatim>\<open>remove_complete_lines\<close> returns 1; afterwards, in every
  column, each row \<open>r\<close> with \<open>0 < r \<le> y\<close> holds what row \<open>r - 1\<close> held, the rows below
  \<open>y\<close> are unchanged and row 0 is blank.
\<close>

theorem remove_complete_lines_single_line:
  assumes "wf_board b" and "0 < columns b" and "0 \<le> y" and "y < rows b"
    and "is_complete_line b y = Inr True"
    and "\<forall>r\<in>{0..<rows b}. r \<noteq> y \<longrightarrow> is_complete_line b r = Inr False"
  shows "\<exists>b'. remove_complete_lines b = Some (Inr (1, b')) \<and>
           wf_board b' \<and> columns b' = columns b \<and> rows b' = rows b \<and>
           (\<forall>x\<in>{0..<columns b}.
              (\<forall>r. 0 < r \<and> r \<le> y \<longrightarrow>
                   get_cell (state b') x r = get_cell (state b) x (r - 1)) \<and>
              (\<forall>r. y < r \<and> r < rows b \<longrightarrow>
                   get_cell (state b') x r = get_cell (state b) x r) \<and>
              get_cell (state b') x 0 = Inr BLANK)"
proof -
  let ?st = "state b"
  let ?b1 = "b\<lparr>state := map (shift_column (nat y)) ?st\<rparr>"
  have rc_y: "row_complete ?st (nat y)"
    using is_complete_line_eq[OF assms(1,3,4)] assms(5) by simp
  have rc_other: "\<not> row_complete ?st k" if "k < nat (rows b)" "k \<noteq> nat y" for k
  proof -
    have "int k \<in> {0..<rows b}" "int k \<noteq> y" using that assms(3) by auto
    then have "is_complete_line b (int k) = Inr False" using assms(6) by blast
    moreover have "is_complete_line b (int k) = Inr (row_complete ?st (nat (int k)))"
      using that(1) by (intro is_complete_line_eq[OF assms(1)]) simp_all
    ultimately show ?thesis by simp
  qed
  have wf1: "wf_board ?b1" using wf_board_shift[OF assms(1,3,4)] .
  have j: "nat y < nat (rows b)" using assms(3,4) by simp
  have skip: "remove_complete_lines_loop b (rows b - 1) 0 = remove_complete_lines_loop b y 0"
  proof (rule remove_complete_lines_loop_skip[OF assms(1)])
    show "\<forall>k. nat (y + 1) \<le> k \<and> k < nat (rows b - 1 + 1) \<longrightarrow> \<not> row_complete ?st k"
      using rc_other assms(3) by auto
  qed (use assms(3,4) in simp_all)
  have rem: "remove_complete_lines_loop b y 0 = remove_complete_lines_loop ?b1 y (0 + 1)"
    using assms(3,5) remove_line_eq[OF assms(1,3,4)]
    by (subst remove_complete_lines_loop.simps) simp
  have none: "\<forall>k<nat (y + 1). \<not> row_complete (state ?b1) k"
  proof (intro allI impI)
    fix k assume k: "k < nat (y + 1)"
    then have kr: "k < nat (rows b)" "k \<le> nat y" using assms(3,4) by simp_all
    show "\<not> row_complete (state ?b1) k"
    proof (cases k)
      case 0
      then show ?thesis using row_complete_shift[OF assms(1,2) j kr(1)] by simp
    next
      case (Suc k')
      then have "k - 1 < nat (rows b)" "k - 1 \<noteq> nat y" using kr by simp_all
      then have "\<not> row_complete ?st (k - 1)" by (rule rc_other)
      then show ?thesis using row_complete_shift[OF assms(1,2) j kr(1)] Suc kr(2) by simp
    qed
  qed
  have fin: "remove_complete_lines_loop ?b1 y (0 + 1) = Some (Inr (0 + 1, ?b1))"
    by (rule remove_complete_lines_loop_none_complete[OF wf1]) (use assms(3,4) none in simp_all)
  have res: "remove_complete_lines b = Some (Inr (1, ?b1))"
    using skip rem fin by (simp add: remove_complete_lines_def)
  have cells: "get_cell (state ?b1) x r =
        (if r = 0 then Inr BLANK else if r \<le> y then get_cell ?st x (r - 1) else get_cell ?st x r)"
    if x: "0 \<le> x" "x < columns b" and r: "0 \<le> r" "r < rows b" for x r
  proof -
    have on: "is_on_board b x r" using x r by (simp add: is_on_board_def)
    have on1: "is_on_board ?b1 x r" using x r by (simp add: is_on_board_def)
    have nx: "nat x < length ?st" using x assms(1) by (simp add: wf_board_def)
    then have "?st ! nat x \<in> set ?st" by simp
    then have len: "length (?st ! nat x) = nat (rows b)"
      using assms(1) by (simp add: wf_board_def list_all_iff)
    have new: "get_cell (state ?b1) x r = Inr (shift_column (nat y) (?st ! nat x) ! nat r)"
      using wf_get_cell[OF wf1 on1] nx by simp
    have sh: "shift_column (nat y) (?st ! nat x) ! nat r =
          (if nat r = 0 then BLANK else if nat r \<le> nat y then ?st ! nat x ! (nat r - 1)
           else ?st ! nat x ! nat r)"
      by (rule shift_column_nth) (use len j r in simp_all)
    show ?thesis
    proof (cases "r = 0")
      case True
      then show ?thesis using new sh by simp
    next
      case False
      then have r1: "0 \<le> r - 1" "r - 1 < rows b" using r by simp_all
      have on': "is_on_board b x (r - 1)" using x r1 by (simp add: is_on_board_def)
      have "nat (r - 1) = nat r - 1" by simp
      then show ?thesis
        using False new sh wf_get_cell[OF assms(1) on] wf_get_cell[OF assms(1) on'] r assms(3)
        by (auto simp: nat_le_eq_zle)
    qed
  qed
  have "\<forall>x\<in>{0..<columns b}.
              (\<forall>r. 0 < r \<and> r \<le> y \<longrightarrow>
                   get_cell (state ?b1) x r = get_cell (state b) x (r - 1)) \<and>
              (\<forall>r. y < r \<and> r < rows b \<longrightarrow>
                   get_cell (state ?b1) x r = get_cell (state b) x r) \<and>
              get_cell (state ?b1) x 0 = Inr BLANK"
  proof (intro ballI conjI allI impI)
    fix x assume x: "x \<in> {0..<columns b}"
    show "get_cell (state ?b1) x 0 = Inr BLANK"
      using cells[of x 0] x assms(3,4) by simp
  next
    fix x r assume x: "x \<in> {0..<columns b}" and r: "0 < r \<and> r \<le> y"
    show "get_cell (state ?b1) x r = get_cell (state b) x (r - 1)"
      using cells[of x r] x r assms(4) by simp
  next
    fix x r assume x: "x \<in> {0..<columns b}" and r: "y < r \<and> r < rows b"
    show "get_cell (state ?b1) x r = get_cell (state b) x r"
      using cells[of x r] x r assms(3) by simp
  qed
  then show ?thesis using res wf1 by (intro exI[of _ ?b1]) simp
qed

text \<open>
  The example of the specification: row 19 is discarded, row 18 moves to row 19 and
  row 18 becomes blank.
\<close>

theorem remove_complete_lines_single_line_witness:
  "is_complete_line example_board 19 = Inr True \<and>
   list_all (\<lambda>r. is_complete_line example_board r = Inr False) (xrange 19) \<and>
   (\<exists>b'. remove_complete_lines example_board = Some (Inr (1, b')) \<and>
         get_cell (state b') 3 19 = Inr (Colour 3) \<and>
         get_cell (state b') 9 19 = Inr BLANK \<and>
         get_cell (state b') 3 18 = Inr BLANK \<and>
         get_cell (state b') 3 0 = Inr BLANK)"
proof -
  have wf: "wf_board example_board" by code_simp
  have c: "0 < columns example_board" by code_simp
  have y: "(0::int) \<le> 19" "19 < rows example_board" by code_simp+
  have full: "is_complete_line example_board 19 = Inr True" by code_simp
  have others: "\<forall>r\<in>{0..<rows example_board}. r \<noteq> 19 \<longrightarrow>
                  is_complete_line example_board r = Inr False"
    by code_simp
  have rest: "list_all (\<lambda>r. is_complete_line example_board r = Inr False) (xrange 19)"
    by code_simp
  have old: "get_cell (state example_board) 3 18 = Inr (Colour 3)"
    "get_cell (state example_board) 9 18 = Inr BLANK"
    "get_cell (state example_board) 3 17 = Inr BLANK"
    by code_simp+
  have cols: "(3::int) \<in> {0..<columns example_board}" "(9::int) \<in> {0..<columns example_board}"
    by code_simp+
  from remove_complete_lines_single_line[OF wf c y full others]
  obtain b' where b': "remove_complete_lines example_board = Some (Inr (1, b'))"
    and cells: "\<forall>x\<in>{0..<columns example_board}.
              (\<forall>r. 0 < r \<and> r \<le> 19 \<longrightarrow>
                   get_cell (state b') x r = get_cell (state example_board) x (r - 1)) \<and>
              (\<forall>r. 19 < r \<and> r < rows example_board \<longrightarrow>
                   get_cell (state b') x r = get_cell (state example_board) x r) \<and>
              get_cell (state b') x 0 = Inr BLANK"
    by blast
  have up: "get_cell (state b') x r = get_cell (state example_board) x (r - 1)"
    if "x \<in> {0..<columns example_board}" "0 < r" "r \<le> 19" for x r
    using cells that by blast
  have "get_cell (state b') 3 19 = get_cell (state example_board) 3 18"
    using up[OF cols(1), of 19] by simp
  moreover have "get_cell (state b') 9 19 = get_cell (state example_board) 9 18"
    using up[OF cols(2), of 19] by simp
  moreover have "get_cell (state b') 3 18 = get_cell (state example_board) 3 17"
    using up[OF cols(1), of 18] by simp
  moreover have "get_cell (state b') 3 0 = Inr BLANK" using cells cols(1) by blast
  ultimately show ?thesis using b' full rest old by auto
qed

subsection \<open>The loop body does not read the lines total\<close>

text \<open>
  Stage by stage: starting an iteration from another lines total changes nothing but
  the lines total of the result.
\<close>

lemma spawn_stage_lines:
  "spawn_stage w (s\<lparr>session_lines := n\<rparr>) = map_sum id (shift_lines s n) (spawn_stage w s)"
  by (simp add: spawn_stage_def new_Piece_def time_time_def Let_def shift_lines_def
      split: option.splits sum.splits)

lemma key_down_bottom_lines:
  "key_down_bottom k (s\<lparr>session_lines := n\<rparr>) = map_sum id (shift_lines s n) (key_down_bottom k s)"
  by (simp add: key_down_bottom_def the_piece_def Let_def shift_lines_def
      split: option.splits sum.splits)

lemma key_down_soft_lines:
  "key_down_soft w k (s\<lparr>session_lines := n\<rparr>) = map_sum id (shift_lines s n) (key_down_soft w k s)"
  by (simp add: key_down_soft_def key_down_bottom_lines the_piece_def time_time_def Let_def
      split: option.splits sum.splits) (simp add: shift_lines_def)

lemma key_down_rotate_lines:
  "key_down_rotate w k (s\<lparr>session_lines := n\<rparr>) = map_sum id (shift_lines s n) (key_down_rotate w k s)"
  by (simp add: key_down_rotate_def key_down_soft_lines the_piece_def Let_def
      split: option.splits sum.splits) (simp add: shift_lines_def)

lemma key_down_right_lines:
  "key_down_right w k (s\<lparr>session_lines := n\<rparr>) = map_sum id (shift_lines s n) (key_down_right w k s)"
  by (simp add: key_down_right_def key_down_rotate_lines the_piece_def time_time_def Let_def
      split: option.splits sum.splits) (simp add: shift_lines_def)

lemma key_down_lines:
  "key_down w k (s\<lparr>session_lines := n\<rparr>) = map_sum id (shift_lines s n) (key_down w k s)"
  by (simp add: key_down_def key_down_right_lines the_piece_def time_time_def Let_def
      split: option.splits sum.splits) (simp add: shift_lines_def)

lemma handle_event_lines:
  "handle_event cfg w ev (s\<lparr>session_lines := n\<rparr>) =
   map_sum id (shift_lines s n) (handle_event cfg w ev s)"
  by (cases ev) (simp_all add: key_down_lines, simp_all add: shift_lines_def)

lemma shift_lines_as_update:
  "shift_lines s n s' = s'\<lparr>session_lines := session_lines s' - session_lines s + n\<rparr>"
  by (simp add: shift_lines_def)

lemma shift_lines_compose:
  "shift_lines s1 (session_lines s1 - session_lines s + n) s2 = shift_lines s n s2"
  by (simp add: shift_lines_def)

lemma handle_events_lines:
  "handle_events cfg w evs (s\<lparr>session_lines := n\<rparr>) =
   map_sum id (shift_lines s n) (handle_events cfg w evs s)"
proof (induction evs arbitrary: s n)
  case Nil
  then show ?case by (simp add: shift_lines_def)
next
  case (Cons ev evs)
  show ?case
  proof (cases "handle_event cfg w ev s")
    case (Inl e)
    then show ?thesis by (simp add: handle_event_lines)
  next
    case (Inr s1)
    then show ?thesis
      using Cons.IH[where s = s1 and n = "session_lines s1 - session_lines s + n"]
      by (simp add: handle_event_lines shift_lines_as_update[of s n s1] shift_lines_compose)
  qed
qed

lemma event_stage_lines:
  "event_stage cfg w (s\<lparr>session_lines := n\<rparr>) = map_sum id (shift_lines s n) (event_stage cfg w s)"
proof -
  let ?s1 = "s\<lparr>polls := Suc (polls s)\<rparr>"
  have base: "shift_lines ?s1 n = shift_lines s n"
    by (simp add: fun_eq_iff shift_lines_def)
  have swap: "s\<lparr>session_lines := n, polls := Suc (polls s)\<rparr> = ?s1\<lparr>session_lines := n\<rparr>"
    by simp
  have "event_stage cfg w (s\<lparr>session_lines := n\<rparr>) =
        handle_events cfg w (event_queue w (polls s)) (?s1\<lparr>session_lines := n\<rparr>)"
    by (simp add: event_stage_def event_get_def swap)
  also have "\<dots> = map_sum id (shift_lines ?s1 n) (handle_events cfg w (event_queue w (polls s)) ?s1)"
    by (rule handle_events_lines)
  finally show ?thesis by (simp add: base event_stage_def event_get_def)
qed

lemma repeat_left_lines:
  "repeat_left (s\<lparr>session_lines := n\<rparr>) = map_sum id (shift_lines s n) (repeat_left s)"
  by (simp add: repeat_left_def the_piece_def shift_lines_def split: option.splits sum.splits)

lemma repeat_right_lines:
  "repeat_right (s\<lparr>session_lines := n\<rparr>) = map_sum id (shift_lines s n) (repeat_right s)"
  by (simp add: repeat_right_def the_piece_def shift_lines_def split: option.splits sum.splits)

lemma held_sideways_lines:
  "held_sideways w (s\<lparr>session_lines := n\<rparr>) = map_sum id (shift_lines s n) (held_sideways w s)"
proof (cases "(moving_left s \<or> moving_right s) \<and>
              clock w (clock_reads s) - last_move_sideways_time s > MOVE_SIDEWAYS_FREQUENCY")
  case False
  then show ?thesis
    by (auto simp: held_sideways_def time_time_def shift_lines_def)
next
  case True
  let ?s1 = "s\<lparr>clock_reads := Suc (clock_reads s)\<rparr>"
  have swap: "s\<lparr>session_lines := n, clock_reads := Suc (clock_reads s)\<rparr> = ?s1\<lparr>session_lines := n\<rparr>"
    by simp
  have unfold: "held_sideways w s' =
      (case repeat_left (s'\<lparr>clock_reads := Suc (clock_reads s')\<rparr>) of
              Inl e \<Rightarrow> Inl e
            | Inr s2 \<Rightarrow>
                (case repeat_right s2 of
                   Inl e \<Rightarrow> Inl e
                 | Inr s3 \<Rightarrow>
                     (let (t', s4) = time_time w s3 in Inr (s4\<lparr>last_move_sideways_time := t'\<rparr>))))"
    if "(moving_left s' \<or> moving_right s') \<and>
        clock w (clock_reads s') - last_move_sideways_time s' > MOVE_SIDEWAYS_FREQUENCY" for s'
    using that by (auto simp: held_sideways_def time_time_def)
  have u1: "held_sideways w s = (case repeat_left ?s1 of
              Inl e \<Rightarrow> Inl e
            | Inr s2 \<Rightarrow>
                (case repeat_right s2 of
                   Inl e \<Rightarrow> Inl e
                 | Inr s3 \<Rightarrow>
                     (let (t', s4) = time_time w s3 in Inr (s4\<lparr>last_move_sideways_time := t'\<rparr>))))"
    using unfold[of s] True by simp
  have u2: "held_sideways w (s\<lparr>session_lines := n\<rparr>) = (case repeat_left (?s1\<lparr>session_lines := n\<rparr>) of
              Inl e \<Rightarrow> Inl e
            | Inr s2 \<Rightarrow>
                (case repeat_right s2 of
                   Inl e \<Rightarrow> Inl e
                 | Inr s3 \<Rightarrow>
                     (let (t', s4) = time_time w s3 in Inr (s4\<lparr>last_move_sideways_time := t'\<rparr>))))"
    using unfold[of "s\<lparr>session_lines := n\<rparr>"] True by (simp add: swap)
  show ?thesis
  proof (cases "repeat_left ?s1")
    case (Inl e)
    then show ?thesis unfolding u1 u2 by (simp add: repeat_left_lines)
  next
    case s2: (Inr s2)
    have l: "repeat_left (?s1\<lparr>session_lines := n\<rparr>) =
             Inr (s2\<lparr>session_lines := session_lines s2 - session_lines s + n\<rparr>)"
      using s2 by (simp add: repeat_left_lines shift_lines_def)
    show ?thesis
    proof (cases "repeat_right s2")
      case (Inl e)
      then show ?thesis unfolding u1 u2 using s2 l by (simp add: repeat_right_lines)
    next
      case s3: (Inr s3)
      then show ?thesis unfolding u1 u2 using s2 l
        by (simp add: repeat_right_lines shift_lines_def time_time_def)
    qed
  qed
qed

lemma held_down_lines:
  "held_down w (s\<lparr>session_lines := n\<rparr>) = map_sum id (shift_lines s n) (held_down w s)"
  by (simp add: held_down_def the_piece_def time_time_def Let_def shift_lines_def
      split: option.splits sum.splits)

lemma gravity_stage_lines:
  "gravity_stage cfg w (s\<lparr>session_lines := n\<rparr>) =
   map_option (map_sum id (shift_lines s n)) (gravity_stage cfg w s)"
  by (simp add: gravity_stage_def the_piece_def time_time_def Let_def shift_lines_def
      split: option.splits sum.splits prod.splits)

lemma loop_body_lines:
  "loop_body cfg w (s\<lparr>session_lines := n\<rparr>) =
   map_option (map_sum id (shift_lines s n)) (loop_body cfg w s)"
proof (cases "spawn_stage w s")
  case (Inl e)
  then show ?thesis by (simp add: loop_body_def spawn_stage_lines)
next
  case s1: (Inr s1)
  let ?n1 = "session_lines s1 - session_lines s + n"
  have a1: "spawn_stage w (s\<lparr>session_lines := n\<rparr>) = Inr (s1\<lparr>session_lines := ?n1\<rparr>)"
    using s1 by (simp add: spawn_stage_lines shift_lines_def)
  show ?thesis
  proof (cases "event_stage cfg w s1")
    case (Inl e)
    then show ?thesis using s1 a1 by (simp add: loop_body_def event_stage_lines)
  next
    case s2: (Inr s2)
    let ?n2 = "session_lines s2 - session_lines s + n"
    have a2: "event_stage cfg w (s1\<lparr>session_lines := ?n1\<rparr>) = Inr (s2\<lparr>session_lines := ?n2\<rparr>)"
      using s2 by (simp add: event_stage_lines shift_lines_def)
    show ?thesis
    proof (cases "held_sideways w s2")
      case (Inl e)
      then show ?thesis using s1 a1 s2 a2 by (simp add: loop_body_def held_sideways_lines)
    next
      case s3: (Inr s3)
      let ?n3 = "session_lines s3 - session_lines s + n"
      have a3: "held_sideways w (s2\<lparr>session_lines := ?n2\<rparr>) = Inr (s3\<lparr>session_lines := ?n3\<rparr>)"
        using s3 by (simp add: held_sideways_lines shift_lines_def)
      show ?thesis
      proof (cases "held_down w s3")
        case (Inl e)
        then show ?thesis using s1 a1 s2 a2 s3 a3 by (simp add: loop_body_def held_down_lines)
      next
        case s4: (Inr s4)
        let ?n4 = "session_lines s4 - session_lines s + n"
        have a4: "held_down w (s3\<lparr>session_lines := ?n3\<rparr>) = Inr (s4\<lparr>session_lines := ?n4\<rparr>)"
          using s4 by (simp add: held_down_lines shift_lines_def)
        have "shift_lines s4 ?n4 = shift_lines s n"
          by (simp add: fun_eq_iff shift_lines_def)
        then show ?thesis using s1 a1 s2 a2 s3 a3 s4 a4
          by (simp add: loop_body_def gravity_stage_lines)
      qed
    qed
  qed
qed

subsection \<open>C1: the gravity interval\<close>

text \<open>
  C1 (as stated, fails). The claim: at every point of a session the gravity interval
  is \<open>base_interval - level * per_level_decrement\<close> with
  \<open>level = lines_cleared // 10 + 1\<close>, so the fall rate changes when the lines total
  crosses a multiple of 10. In the example session the lines total is 10 and the
  level 2, for which the claim's formula gives \<open>0.35 - 2 * 0.01\<close>, more than 0.31
  (in exact arithmetic as in doubles). Yet 0.31 seconds after the last fall the loop,
  run with the default \<^verbatim>\<open>fall_frequency\<close> of 0.3, moves the piece down, and it does
  exactly the same at a lines total of 9, where the level is 1.
\<close>

theorem gravity_ignores_level:
  "calculate_level (session_lines example_session) = 2 \<and>
   calculate_level 9 = 1 \<and>
   fall_frequency default_config = 3 / 10 \<and>
   clock example_world (clock_reads example_session) - last_fall_time example_session = 31 / 100 \<and>
   31 / 100 < 35 / 100 - real_of_int (calculate_level (session_lines example_session)) * (1 / 100) \<and>
   gravity_stage default_config example_world example_session =
     Some (Inr (example_session
       \<lparr>falling_piece := Some (move_down (Piece_init default_board T_SHAPE 0 0)),
        last_fall_time := 62 / 100, clock_reads := 3\<rparr>)) \<and>
   gravity_stage default_config example_world (example_session\<lparr>session_lines := 9\<rparr>) =
     Some (Inr (example_session
       \<lparr>session_lines := 9,
        falling_piece := Some (move_down (Piece_init default_board T_SHAPE 0 0)),
        last_fall_time := 62 / 100, clock_reads := 3\<rparr>))"
  by code_simp

text \<open>
  C1 (amended). \<^verbatim>\<open>calculate_level\<close> computes \<open>score // 10 + 1\<close>, but the loop calls
  neither it nor \<^verbatim>\<open>calculate_fall_frequency\<close>: the gravity interval is the argument
  \<^verbatim>\<open>fall_frequency\<close> of \<^verbatim>\<open>distractor\<close> (0.3 by default) for the whole session.
  While the time since the last fall is at most \<open>fall_frequency\<close> the gravity block
  only reads the clock. Once the time exceeds it, a falling piece that may move down
  is moved one row and the fall timer is read anew; a falling piece that may not is
  landed: \<^verbatim>\<open>add_to_board\<close>, then \<^verbatim>\<open>remove_complete_lines\<close>, the count added to the
  lines total and the falling piece cleared, an exception of either call leaving the
  loop. A loop iteration started from another lines total differs in nothing but
  the lines total.
\<close>

theorem gravity_interval_is_fall_frequency:
  "calculate_level score = score div 10 + 1 \<and>
   (clock w (clock_reads s) - last_fall_time s \<le> fall_frequency cfg \<longrightarrow>
      gravity_stage cfg w s = Some (Inr (s\<lparr>clock_reads := Suc (clock_reads s)\<rparr>))) \<and>
   (fall_frequency cfg < clock w (clock_reads s) - last_fall_time s \<and>
    falling_piece s = Some p \<and> legal_down p (game_board s) = Inr True \<longrightarrow>
      gravity_stage cfg w s =
        Some (Inr (s\<lparr>falling_piece := Some (move_down p),
                      last_fall_time := clock w (Suc (clock_reads s)),
                      clock_reads := Suc (Suc (clock_reads s))\<rparr>))) \<and>
   (fall_frequency cfg < clock w (clock_reads s) - last_fall_time s \<and>
    falling_piece s = Some p \<and> legal_down p (game_board s) = Inr False \<longrightarrow>
      gravity_stage cfg w s =
        (case add_to_board p (game_board s) of
           Inl e \<Rightarrow> Some (Inl e)
         | Inr b1 \<Rightarrow>
             (case remove_complete_lines b1 of
                None \<Rightarrow> None
              | Some (Inl e) \<Rightarrow> Some (Inl e)
              | Some (Inr (new_lines, b2)) \<Rightarrow>
                  Some (Inr (s\<lparr>clock_reads := Suc (clock_reads s), game_board := b2,
                                session_lines := session_lines s + new_lines,
                                falling_piece := None\<rparr>))))) \<and>
   loop_body cfg w (s\<lparr>session_lines := n\<rparr>) =
     map_option (map_sum id (shift_lines s n)) (loop_body cfg w s)"
proof (intro conjI impI)
  show "calculate_level score = score div 10 + 1"
    by (simp add: calculate_level_def LINES_PER_LEVEL_def)
  show "gravity_stage cfg w s = Some (Inr (s\<lparr>clock_reads := Suc (clock_reads s)\<rparr>))"
    if "clock w (clock_reads s) - last_fall_time s \<le> fall_frequency cfg"
    using that by (simp add: gravity_stage_def time_time_def)
  show "gravity_stage cfg w s =
        Some (Inr (s\<lparr>falling_piece := Some (move_down p),
                      last_fall_time := clock w (Suc (clock_reads s)),
                      clock_reads := Suc (Suc (clock_reads s))\<rparr>))"
    if "fall_frequency cfg < clock w (clock_reads s) - last_fall_time s \<and>
        falling_piece s = Some p \<and> legal_down p (game_board s) = Inr True"
    using that by (simp add: gravity_stage_def time_time_def the_piece_def)
  show "gravity_stage cfg w s =
        (case add_to_board p (game_board s) of
           Inl e \<Rightarrow> Some (Inl e)
         | Inr b1 \<Rightarrow>
             (case remove_complete_lines b1 of
                None \<Rightarrow> None
              | Some (Inl e) \<Rightarrow> Some (Inl e)
              | Some (Inr (new_lines, b2)) \<Rightarrow>
                  Some (Inr (s\<lparr>clock_reads := Suc (clock_reads s), game_board := b2,
                                session_lines := session_lines s + new_lines,
                                falling_piece := None\<rparr>))))"
    if "fall_frequency cfg < clock w (clock_reads s) - last_fall_time s \<and>
        falling_piece s = Some p \<and> legal_down p (game_board s) = Inr False"
    using that
    by (simp add: gravity_stage_def time_time_def the_piece_def
        split: sum.splits option.splits prod.splits)
  show "loop_body cfg w (s\<lparr>session_lines := n\<rparr>) =
     map_option (map_sum id (shift_lines s n)) (loop_body cfg w s)"
    by (rule loop_body_lines)
qed

text \<open>
  The example session 0.31 seconds after the last fall (the piece moves); the same
  session at the time of the last fall (nothing moves); the session with the T piece
  on the bottom row (it is merged into rows 18 and 19, no line is removed); and the
  J piece beside the tower (the landing raises \<^verbatim>\<open>IndexError\<close>).
\<close>

theorem gravity_interval_is_fall_frequency_witness:
  "fall_frequency default_config <
     clock example_world (clock_reads example_session) - last_fall_time example_session \<and>
   falling_piece example_session = Some (Piece_init default_board T_SHAPE 0 0) \<and>
   legal_down (Piece_init default_board T_SHAPE 0 0) (game_board example_session) = Inr True \<and>
   gravity_stage default_config example_world example_session =
     Some (Inr (example_session
       \<lparr>falling_piece := Some (move_down (Piece_init default_board T_SHAPE 0 0)),
        last_fall_time := clock example_world (Suc (clock_reads example_session)),
        clock_reads := Suc (Suc (clock_reads example_session))\<rparr>)) \<and>
   clock example_world (clock_reads (example_session\<lparr>clock_reads := 0\<rparr>)) -
     last_fall_time (example_session\<lparr>clock_reads := 0\<rparr>) \<le> fall_frequency default_config \<and>
   gravity_stage default_config example_world (example_session\<lparr>clock_reads := 0\<rparr>) =
     Some (Inr (example_session\<lparr>clock_reads := 1\<rparr>)) \<and>
   fall_frequency default_config <
     clock example_world (clock_reads landing_session) - last_fall_time landing_session \<and>
   falling_piece landing_session =
     Some ((Piece_init default_board T_SHAPE 0 0)\<lparr>piece_y := 17\<rparr>) \<and>
   legal_down ((Piece_init default_board T_SHAPE 0 0)\<lparr>piece_y := 17\<rparr>)
     (game_board landing_session) = Inr False \<and>
   (case gravity_stage default_config example_world landing_session of
      Some (Inr s') \<Rightarrow>
        falling_piece s' = None \<and> session_lines s' = 10 \<and> clock_reads s' = 2 \<and>
        get_cell (state (game_board s')) 4 19 = Inr (Colour 0) \<and>
        get_cell (state (game_board s')) 5 18 = Inr (Colour 0)
    | _ \<Rightarrow> False) \<and>
   fall_frequency default_config <
     clock crash_world (clock_reads (crash_session\<lparr>clock_reads := 1\<rparr>)) -
     last_fall_time (crash_session\<lparr>clock_reads := 1\<rparr>) \<and>
   gravity_stage default_config crash_world
     (crash_session\<lparr>clock_reads := 1,
        falling_piece := Some ((Piece_init tower_board J_SHAPE 1 2)\<lparr>piece_x := 7\<rparr>)\<rparr>) =
     Some (Inl IndexError)"
proof -
  let ?p = "Piece_init default_board T_SHAPE 0 0"
  let ?q = "(Piece_init default_board T_SHAPE 0 0)\<lparr>piece_y := 17\<rparr>"
  let ?j = "(Piece_init tower_board J_SHAPE 1 2)\<lparr>piece_x := 7\<rparr>"
  let ?s0 = "example_session\<lparr>clock_reads := 0\<rparr>"
  let ?sc = "crash_session\<lparr>clock_reads := 1, falling_piece := Some ?j\<rparr>"
  have late: "fall_frequency default_config <
     clock example_world (clock_reads example_session) - last_fall_time example_session"
    by code_simp
  have fp: "falling_piece example_session = Some ?p" by code_simp
  have legal: "legal_down ?p (game_board example_session) = Inr True" by code_simp
  have early: "clock example_world (clock_reads ?s0) - last_fall_time ?s0
               \<le> fall_frequency default_config"
    by code_simp
  have g1: "gravity_stage default_config example_world example_session =
     Some (Inr (example_session
       \<lparr>falling_piece := Some (move_down ?p),
        last_fall_time := clock example_world (Suc (clock_reads example_session)),
        clock_reads := Suc (Suc (clock_reads example_session))\<rparr>))"
    using gravity_interval_is_fall_frequency
            [of 0 example_world example_session default_config ?p 0]
          late fp legal by blast
  have "gravity_stage default_config example_world ?s0 =
     Some (Inr (?s0\<lparr>clock_reads := Suc (clock_reads ?s0)\<rparr>))"
    using gravity_interval_is_fall_frequency
            [of 0 example_world ?s0 default_config ?p 0] early by blast
  then have g2: "gravity_stage default_config example_world ?s0 =
     Some (Inr (example_session\<lparr>clock_reads := 1\<rparr>))"
    by simp
  have late3: "fall_frequency default_config <
     clock example_world (clock_reads landing_session) - last_fall_time landing_session"
    by code_simp
  have fp3: "falling_piece landing_session = Some ?q" by code_simp
  have rest3: "legal_down ?q (game_board landing_session) = Inr False" by code_simp
  have eq3: "gravity_stage default_config example_world landing_session =
        (case add_to_board ?q (game_board landing_session) of
           Inl e \<Rightarrow> Some (Inl e)
         | Inr b1 \<Rightarrow>
             (case remove_complete_lines b1 of
                None \<Rightarrow> None
              | Some (Inl e) \<Rightarrow> Some (Inl e)
              | Some (Inr (new_lines, b2)) \<Rightarrow>
                  Some (Inr (landing_session\<lparr>clock_reads := Suc (clock_reads landing_session),
                                game_board := b2,
                                session_lines := session_lines landing_session + new_lines,
                                falling_piece := None\<rparr>))))"
    using gravity_interval_is_fall_frequency
            [of 0 example_world landing_session default_config ?q 0]
          late3 fp3 rest3 by blast
  have g3: "(case gravity_stage default_config example_world landing_session of
      Some (Inr s') \<Rightarrow>
        falling_piece s' = None \<and> session_lines s' = 10 \<and> clock_reads s' = 2 \<and>
        get_cell (state (game_board s')) 4 19 = Inr (Colour 0) \<and>
        get_cell (state (game_board s')) 5 18 = Inr (Colour 0)
    | _ \<Rightarrow> False)"
    unfolding eq3 by code_simp
  have late4: "fall_frequency default_config <
     clock crash_world (clock_reads (crash_session\<lparr>clock_reads := 1\<rparr>)) -
     last_fall_time (crash_session\<lparr>clock_reads := 1\<rparr>)"
    by code_simp
  have late4': "fall_frequency default_config <
     clock crash_world (clock_reads ?sc) - last_fall_time ?sc"
    by code_simp
  have fp4: "falling_piece ?sc = Some ?j" by simp
  have rest4: "legal_down ?j (game_board ?sc) = Inr False" by code_simp
  have eq4: "gravity_stage default_config crash_world ?sc =
        (case add_to_board ?j (game_board ?sc) of
           Inl e \<Rightarrow> Some (Inl e)
         | Inr b1 \<Rightarrow>
             (case remove_complete_lines b1 of
                None \<Rightarrow> None
              | Some (Inl e) \<Rightarrow> Some (Inl e)
              | Some (Inr (new_lines, b2)) \<Rightarrow>
                  Some (Inr (?sc\<lparr>clock_reads := Suc (clock_reads ?sc),
                                game_board := b2,
                                session_lines := session_lines ?sc + new_lines,
                                falling_piece := None\<rparr>))))"
    using gravity_interval_is_fall_frequency
            [of 0 crash_world ?sc default_config ?j 0]
          late4' fp4 rest4 by blast
  have g4: "gravity_stage default_config crash_world ?sc = Some (Inl IndexError)"
    unfolding eq4 by code_simp
  show ?thesis using late fp legal g1 early g2 late3 fp3 rest3 g3 late4 g4 by blast
qed

subsection \<open>C4: a blocked spawn\<close>

lemma reset_all_blank: "list_all (list_all (\<lambda>c. c = BLANK)) (state (reset b))"
  by (simp add: reset_def list_all_iff)

text \<open>
  C4. When there is no falling piece and the next piece, promoted, is not in a valid
  position, the spawn block raises nothing and leaves a session with one more loss,
  the same lines total, the board reset to all blank, the three movement flags
  false, the three timers set to the clock reads that follow, and two freshly drawn
  pieces as falling and next piece; the rest of the loop iteration runs as an
  iteration started from that session.
\<close>

theorem blocked_spawn_is_a_loss:
  assumes "falling_piece s = None"
    and "is_valid_position (next_piece s) (game_board s) 0 0 = Inr False"
  shows "\<exists>s'. spawn_stage w s = Inr s' \<and>
           session_losses s' = session_losses s + 1 \<and>
           session_lines s' = session_lines s \<and>
           game_board s' = reset (game_board s) \<and>
           list_all (list_all (\<lambda>c. c = BLANK)) (state (game_board s')) \<and>
           \<not> moving_down s' \<and> \<not> moving_left s' \<and> \<not> moving_right s' \<and>
           last_move_down_time s' = clock w (clock_reads s + 1) \<and>
           last_move_sideways_time s' = clock w (clock_reads s + 2) \<and>
           last_fall_time s' = clock w (clock_reads s + 3) \<and>
           falling_piece s' =
             Some (random_Piece (reset (game_board s)) (draws w (pieces_drawn s + 1))) \<and>
           next_piece s' = random_Piece (reset (game_board s)) (draws w (pieces_drawn s + 2)) \<and>
           loop_body cfg w s = loop_body cfg w s'"
proof -
  obtain s' where s': "spawn_stage w s = Inr s'"
    using assms by (simp add: spawn_stage_def new_Piece_def time_time_def Let_def)
  have facts: "session_losses s' = session_losses s + 1 \<and>
           session_lines s' = session_lines s \<and>
           game_board s' = reset (game_board s) \<and>
           list_all (list_all (\<lambda>c. c = BLANK)) (state (game_board s')) \<and>
           \<not> moving_down s' \<and> \<not> moving_left s' \<and> \<not> moving_right s' \<and>
           last_move_down_time s' = clock w (clock_reads s + 1) \<and>
           last_move_sideways_time s' = clock w (clock_reads s + 2) \<and>
           last_fall_time s' = clock w (clock_reads s + 3) \<and>
           falling_piece s' =
             Some (random_Piece (reset (game_board s)) (draws w (pieces_drawn s + 1))) \<and>
           next_piece s' = random_Piece (reset (game_board s)) (draws w (pieces_drawn s + 2))"
    using assms s'
    by (auto simp: spawn_stage_def new_Piece_def time_time_def Let_def reset_all_blank
        numeral_3_eq_3 numeral_2_eq_2)
  then have "spawn_stage w s' = Inr s'" by (simp add: spawn_stage_def)
  then have "loop_body cfg w s = loop_body cfg w s'" using s' by (simp add: loop_body_def)
  then show ?thesis using s' facts by blast
qed

text \<open>
  A session whose next piece is blocked by the coloured cell at column 4, row 0: the
  spawn block counts the loss and resets the board, and the loop, run to a deadline
  of one second, ends normally with one loss and the lines total unchanged.
\<close>

theorem blocked_spawn_is_a_loss_witness:
  "falling_piece blocked_session = None \<and>
   is_valid_position (next_piece blocked_session) (game_board blocked_session) 0 0 = Inr False \<and>
   (\<exists>s'. spawn_stage example_world blocked_session = Inr s' \<and>
         session_losses s' = 1 \<and> game_board s' = default_board \<and>
         \<not> moving_down s' \<and> \<not> moving_left s' \<and>
         falling_piece s' = Some (Piece_init default_board T_SHAPE 0 0)) \<and>
   (case distractor_loop default_config example_world 1 blocked_session of
      Some (Inr s') \<Rightarrow> session_losses s' = 1 \<and> session_lines s' = 3
    | _ \<Rightarrow> False)"
proof -
  have none: "falling_piece blocked_session = None" by code_simp
  have blocked: "is_valid_position (next_piece blocked_session) (game_board blocked_session) 0 0
                 = Inr False" by code_simp
  have r: "reset (game_board blocked_session) = default_board" by code_simp
  have l: "session_losses blocked_session = 0" by code_simp
  have p: "random_Piece default_board (draws example_world (pieces_drawn blocked_session + 1)) =
           Piece_init default_board T_SHAPE 0 0" by code_simp
  have run: "(case distractor_loop default_config example_world 1 blocked_session of
      Some (Inr s') \<Rightarrow> session_losses s' = 1 \<and> session_lines s' = 3
    | _ \<Rightarrow> False)" by code_simp
  from blocked_spawn_is_a_loss[OF none blocked, of example_world]
  obtain s' where "spawn_stage example_world blocked_session = Inr s'"
    "session_losses s' = session_losses blocked_session + 1"
    "game_board s' = reset (game_board blocked_session)"
    "\<not> moving_down s'" "\<not> moving_left s'"
    "falling_piece s' = Some (random_Piece (reset (game_board blocked_session))
        (draws example_world (pieces_drawn blocked_session + 1)))"
    by blast
  then have "\<exists>s'. spawn_stage example_world blocked_session = Inr s' \<and>
         session_losses s' = 1 \<and> game_board s' = default_board \<and>
         \<not> moving_down s' \<and> \<not> moving_left s' \<and>
         falling_piece s' = Some (Piece_init default_board T_SHAPE 0 0)"
    using r l p by simp
  then show ?thesis using none blocked run by blast
qed

end
